theory Spec2Isabelle
  imports Complex_Main
begin

section \<open>Python values used by the PDF manager\<close>

text \<open>
  The program is \<^verbatim>\<open>src/pdf_merger_app.py\<close>. Python \<^verbatim>\<open>str\<close> values are modelled as
  \<^typ>\<open>string\<close>: one \<^typ>\<open>char\<close> per code point, restricted to the code points below 256.
  Python \<^verbatim>\<open>int\<close> values are \<^typ>\<open>int\<close>. An exception is a value of \<open>py_error\<close>
  (\<open>OSError\<close> also stands for whatever the PDF library raises on a file it cannot
  read or write).
\<close>

datatype py_error =
  ValueError | ZeroDivisionError | OverflowError | IndexError | AttributeError | OSError

subsection \<open>\<^verbatim>\<open>str.strip\<close>, \<^verbatim>\<open>str.split\<close>, \<^verbatim>\<open>in\<close>\<close>

text \<open>
  \<^verbatim>\<open>str.isspace\<close> on the code points below 256: TAB, LF, VT, FF, CR, the four
  separators FS, GS, RS, US, the space, NEL (0x85) and the no-break space (0xA0).
\<close>

definition is_space :: "char \<Rightarrow> bool" where
  "is_space c = ((of_char c :: nat) \<in> {9, 10, 11, 12, 13, 28, 29, 30, 31, 32, 133, 160})"

definition strip :: "string \<Rightarrow> string" where
  "strip s = rev (dropWhile is_space (rev (dropWhile is_space s)))"

text \<open>
  \<^verbatim>\<open>s.split(sep)\<close> for a one-character separator: every occurrence cuts, empty
  pieces are kept, and the empty string gives one empty piece.
\<close>

fun split_on :: "char \<Rightarrow> string \<Rightarrow> string list" where
  "split_on sep [] = [[]]"
| "split_on sep (c # cs) =
     (if c = sep then [] # split_on sep cs
      else (case split_on sep cs of
              [] \<Rightarrow> [[c]]
            | p # ps \<Rightarrow> (c # p) # ps))"

text \<open>
  \<^verbatim>\<open>part.split("-", 1)\<close> on a part that contains the separator: the text before the
  first occurrence and the text after it.
\<close>

definition split_first :: "char \<Rightarrow> string \<Rightarrow> string \<times> string" where
  "split_first sep s = (takeWhile (\<lambda>c. c \<noteq> sep) s, drop 1 (dropWhile (\<lambda>c. c \<noteq> sep) s))"

subsection \<open>\<^verbatim>\<open>int(str)\<close>\<close>

text \<open>
  \<^verbatim>\<open>int(s)\<close> in base 10: surrounding whitespace is dropped, one sign may lead, then
  come decimal digits, where single underscores may stand between two digits. Anything
  else raises \<^verbatim>\<open>ValueError\<close> (the value \<open>None\<close> here). Leading zeros are accepted.

  The whitespace that \<^verbatim>\<open>int\<close> drops is not the whitespace of \<^verbatim>\<open>str.strip\<close>: among the
  code points below 256 it is TAB, LF, VT, FF, CR and the space (what C calls a space),
  and NEL and the no-break space, which \<^verbatim>\<open>int\<close> turns into spaces first. The four
  separators FS, GS, RS, US (28 to 31) are whitespace for \<^verbatim>\<open>str.strip\<close> and an error
  for \<^verbatim>\<open>int\<close>: on the digit 1 followed by FS it raises \<^verbatim>\<open>ValueError\<close>.

  CPython also refuses a numeral of more than \<^verbatim>\<open>sys.get_int_max_str_digits()\<close>
  digits with a \<^verbatim>\<open>ValueError\<close>. That limit is a setting of the interpreter (absent
  before 3.11, 4300 by default, 0 switches it off, and it only applies above 640 digits),
  so it is the parameter \<open>maxd\<close> of the model.
\<close>

definition is_int_space :: "char \<Rightarrow> bool" where
  "is_int_space c = ((of_char c :: nat) \<in> {9, 10, 11, 12, 13, 32, 133, 160})"

definition int_strip :: "string \<Rightarrow> string" where
  "int_strip s = rev (dropWhile is_int_space (rev (dropWhile is_int_space s)))"

definition is_digit :: "char \<Rightarrow> bool" where
  "is_digit c = (48 \<le> (of_char c :: nat) \<and> (of_char c :: nat) \<le> 57)"

definition digit_val :: "char \<Rightarrow> int" where
  "digit_val c = int (of_char c) - 48"

text \<open>
  The scan of the digits: \<open>prev_digit\<close> says whether the character before was a
  digit (an underscore is only accepted right after a digit, and the numeral may not
  end in one). The result is the digit characters, underscores removed.
\<close>

fun scan_digits :: "bool \<Rightarrow> string \<Rightarrow> string option" where
  "scan_digits prev_digit [] = (if prev_digit then Some [] else None)"
| "scan_digits prev_digit (c # cs) =
     (if is_digit c then map_option (\<lambda>ds. c # ds) (scan_digits True cs)
      else if c = CHR ''_'' \<and> prev_digit then scan_digits False cs
      else None)"

definition digits_value :: "string \<Rightarrow> int" where
  "digits_value ds = foldl (\<lambda>acc c. 10 * acc + digit_val c) 0 ds"

definition too_many_digits :: "nat \<Rightarrow> string \<Rightarrow> bool" where
  "too_many_digits maxd ds = (640 < length ds \<and> 0 < maxd \<and> maxd < length ds)"

definition py_int :: "nat \<Rightarrow> string \<Rightarrow> int option" where
  "py_int maxd s =
     (let t = int_strip s;
          (neg, body) = (case t of
                           [] \<Rightarrow> (False, [])
                         | c # cs \<Rightarrow> if c = CHR ''-'' then (True, cs)
                                    else if c = CHR ''+'' then (False, cs)
                                    else (False, t))
      in case scan_digits False body of
           None \<Rightarrow> None
         | Some ds \<Rightarrow> if too_many_digits maxd ds then None
                      else Some (if neg then - digits_value ds else digits_value ds))"

section \<open>The range parser\<close>

text \<open>
  \<^verbatim>\<open>parse_ranges(text, total_pages)\<close>. \<open>clamp_page\<close> is the expression
  \<^verbatim>\<open>max(1, min(total_pages, v))\<close> that the source applies to every endpoint.
\<close>

definition clamp_page :: "int \<Rightarrow> int \<Rightarrow> int" where
  "clamp_page total_pages v = max 1 (min total_pages v)"

text \<open>
  One round of the loop body, for the part as cut at the commas: \<open>None\<close> is a
  \<^verbatim>\<open>continue\<close> that appends nothing, \<open>Some r\<close> is \<^verbatim>\<open>rngs.append(r)\<close>.
\<close>

definition parse_part :: "nat \<Rightarrow> int \<Rightarrow> string \<Rightarrow> (int \<times> int) option" where
  "parse_part maxd total_pages raw =
     (let part = strip raw in
      if part = [] then None
      else if CHR ''-'' \<in> set part then
        (let (a, b) = split_first (CHR ''-'') part in
         case py_int maxd a of
           None \<Rightarrow> None
         | Some av \<Rightarrow>
             (let start = clamp_page total_pages av;
                  end' = (case py_int maxd b of
                            None \<Rightarrow> start
                          | Some bv \<Rightarrow> clamp_page total_pages bv)
              in if start > end' then Some (end', start) else Some (start, end')))
      else
        (case py_int maxd part of
           None \<Rightarrow> None
         | Some pv \<Rightarrow> (let p = clamp_page total_pages pv in Some (p, p))))"

text \<open>The \<^verbatim>\<open>for\<close> loop over the parts, with the list \<^verbatim>\<open>rngs\<close> built so far.\<close>

fun parse_loop :: "nat \<Rightarrow> int \<Rightarrow> string list \<Rightarrow> (int \<times> int) list \<Rightarrow> (int \<times> int) list" where
  "parse_loop maxd total_pages [] rngs = rngs"
| "parse_loop maxd total_pages (raw # rest) rngs =
     (case parse_part maxd total_pages raw of
        None \<Rightarrow> parse_loop maxd total_pages rest rngs
      | Some r \<Rightarrow> parse_loop maxd total_pages rest (rngs @ [r]))"

definition parse_ranges :: "nat \<Rightarrow> string \<Rightarrow> int \<Rightarrow> (int \<times> int) list" where
  "parse_ranges maxd text' total_pages =
     (let t = strip text' in
      if t = [] then []
      else parse_loop maxd total_pages (split_on (CHR '','') t) [])"


section \<open>Binary64 arithmetic\<close>

text \<open>
  Python \<^verbatim>\<open>float\<close> is IEEE 754 binary64. A finite float is modelled by the rational
  number it denotes (the two zeros are one value, and no NaN arises in the expressions
  below). \<open>ilog2 x\<close> is the exponent \<open>e\<close> with \<open>2\<^sup>e \<le> x < 2\<^sup>e\<^sup>+\<^sup>1\<close> of a positive \<open>x\<close>.
\<close>

function ilog2 :: "rat \<Rightarrow> int" where
  "ilog2 x = (if x \<le> 0 then 0
              else if 2 \<le> x then ilog2 (x / 2) + 1
              else if x < 1 then ilog2 (2 * x) - 1
              else 0)"
  by pat_completeness auto
termination
proof (relation "measure (\<lambda>x. 2 * nat \<lceil>1 / x\<rceil> + nat \<lceil>x\<rceil>)")
  show "wf (measure (\<lambda>x::rat. 2 * nat \<lceil>1 / x\<rceil> + nat \<lceil>x\<rceil>))"
    by (rule wf_measure)
next
  fix x :: rat
  assume a: "\<not> x \<le> 0" "2 \<le> x"
  have "\<lceil>1 / x\<rceil> = 1" using a by (simp add: ceiling_eq_iff)
  moreover have "\<lceil>1 / (x / 2)\<rceil> = 1" using a by (simp add: ceiling_eq_iff)
  moreover have "\<lceil>x / 2\<rceil> < \<lceil>x\<rceil>"
  proof -
    have "x / 2 \<le> x - 1" using a by simp
    then have "\<lceil>x / 2\<rceil> \<le> \<lceil>x - 1\<rceil>" by (rule ceiling_mono)
    then show ?thesis by simp
  qed
  moreover have "0 < \<lceil>x\<rceil>" using a by simp
  ultimately have "2 * nat \<lceil>1 / (x / 2)\<rceil> + nat \<lceil>x / 2\<rceil>
      < 2 * nat \<lceil>1 / x\<rceil> + nat \<lceil>x\<rceil>"
    by linarith
  then show "(x / 2, x) \<in> measure (\<lambda>x. 2 * nat \<lceil>1 / x\<rceil> + nat \<lceil>x\<rceil>)"
    by (simp only: in_measure)
next
  fix x :: rat
  assume a: "\<not> x \<le> 0" "\<not> 2 \<le> x" "x < 1"
  have cx: "\<lceil>x\<rceil> = 1" using a by (simp add: ceiling_eq_iff)
  have c2x: "\<lceil>2 * x\<rceil> \<le> 2" using a by (simp add: ceiling_le_iff)
  have h: "2 * \<lceil>1 / (2 * x)\<rceil> + \<lceil>2 * x\<rceil> \<le> 2 * \<lceil>1 / x\<rceil>"
  proof (cases "x < 1 / 2")
    case True
    then have "\<lceil>2 * x\<rceil> \<le> 1" by (simp add: ceiling_le_iff)
    moreover have "1 / (2 * x) \<le> 1 / x - 1" using True a by (simp add: field_simps)
    then have "\<lceil>1 / (2 * x)\<rceil> \<le> \<lceil>1 / x - 1\<rceil>" by (rule ceiling_mono)
    then have "\<lceil>1 / (2 * x)\<rceil> \<le> \<lceil>1 / x\<rceil> - 1" by simp
    ultimately show ?thesis by linarith
  next
    case False
    then have "1 / (2 * x) \<le> 1" using a by (simp add: field_simps)
    then have "\<lceil>1 / (2 * x)\<rceil> \<le> 1" by (simp add: ceiling_le_iff)
    moreover have "1 < 1 / x" using a by (simp add: field_simps)
    then have "1 < \<lceil>1 / x\<rceil>" by (simp add: less_ceiling_iff)
    ultimately show ?thesis using c2x by linarith
  qed
  have p1: "0 < \<lceil>1 / x\<rceil>" using a by simp
  have p2: "0 < \<lceil>1 / (2 * x)\<rceil>" using a by simp
  have p3: "0 < \<lceil>2 * x\<rceil>" using a by simp
  have "2 * nat \<lceil>1 / (2 * x)\<rceil> + nat \<lceil>2 * x\<rceil>
      < 2 * nat \<lceil>1 / x\<rceil> + nat \<lceil>x\<rceil>"
    using h cx p1 p2 p3 by linarith
  then show "(2 * x, x) \<in> measure (\<lambda>x. 2 * nat \<lceil>1 / x\<rceil> + nat \<lceil>x\<rceil>)"
    by (simp only: in_measure)
qed

declare ilog2.simps [simp del]

text \<open>Rounding to the nearest integer, a tie going to the even neighbour.\<close>

definition round_half_even :: "rat \<Rightarrow> int" where
  "round_half_even x =
     (let f = \<lfloor>x\<rfloor>; d = x - of_int f
      in if d < 1 / 2 then f
         else if 1 / 2 < d then f + 1
         else if even f then f else f + 1)"

text \<open>
  Rounding a rational to binary64, the exponent not yet bounded above: 53 significant
  bits, and below \<open>2\<^sup>-\<^sup>1\<^sup>0\<^sup>2\<^sup>2\<close> the fixed spacing \<open>2\<^sup>-\<^sup>1\<^sup>0\<^sup>7\<^sup>4\<close> of the subnormal numbers.
\<close>

definition round_binary64 :: "rat \<Rightarrow> rat" where
  "round_binary64 x =
     (if x = 0 then 0
      else (let e = max (ilog2 \<bar>x\<bar>) (- 1022);
                q = 2 powi (e - 52)
            in of_int (round_half_even (x / q)) * q))"

datatype pyfloat = Finite rat | PosInf | NegInf

text \<open>A rounded magnitude of \<open>2\<^sup>1\<^sup>0\<^sup>2\<^sup>4\<close> or more is an infinity.\<close>

definition to_float :: "rat \<Rightarrow> pyfloat" where
  "to_float x =
     (let r = round_binary64 x
      in if 1024 \<le> ilog2 \<bar>r\<bar> then (if 0 < r then PosInf else NegInf)
         else Finite r)"

text \<open>
  \<^verbatim>\<open>a / b\<close> on two \<^verbatim>\<open>int\<close>s: the correctly rounded quotient, \<^verbatim>\<open>ZeroDivisionError\<close>
  for a zero divisor and \<^verbatim>\<open>OverflowError\<close> when the quotient is too large for a float.
\<close>

definition int_truediv :: "int \<Rightarrow> int \<Rightarrow> py_error + rat" where
  "int_truediv a b =
     (if b = 0 then Inl ZeroDivisionError
      else (case to_float (of_int a / of_int b) of
              Finite q \<Rightarrow> Inr q
            | _ \<Rightarrow> Inl OverflowError))"

text \<open>\<^verbatim>\<open>a / b\<close> on floats (an \<^verbatim>\<open>int\<close> operand below \<open>2\<^sup>5\<^sup>3\<close> converts exactly).\<close>

definition float_truediv :: "rat \<Rightarrow> rat \<Rightarrow> py_error + pyfloat" where
  "float_truediv a b = (if b = 0 then Inl ZeroDivisionError else Inr (to_float (a / b)))"

text \<open>\<^verbatim>\<open>int(x)\<close> on a float: truncation towards zero; an infinity raises.\<close>

definition int_of_float :: "pyfloat \<Rightarrow> py_error + int" where
  "int_of_float v =
     (case v of
        Finite y \<Rightarrow> Inr (if 0 \<le> y then \<lfloor>y\<rfloor> else \<lceil>y\<rceil>)
      | _ \<Rightarrow> Inl OverflowError)"

text \<open>
  The expression \<^verbatim>\<open>int(done / total * 100)\<close> of both workers: a true division, a float
  multiplication by \<open>100\<close>, a truncation.
\<close>

definition percent :: "int \<Rightarrow> int \<Rightarrow> py_error + int" where
  "percent n_done tot =
     (case int_truediv n_done tot of
        Inl err \<Rightarrow> Inl err
      | Inr q \<Rightarrow> int_of_float (to_float (q * 100)))"

text \<open>\<^verbatim>\<open>x < y\<close> on floats, and the two-argument \<^verbatim>\<open>min(a, b)\<close>, which keeps \<open>a\<close> unless \<open>b < a\<close>.\<close>

fun float_less :: "pyfloat \<Rightarrow> pyfloat \<Rightarrow> bool" where
  "float_less (Finite x) (Finite y) = (x < y)"
| "float_less NegInf NegInf = False"
| "float_less NegInf _ = True"
| "float_less _ NegInf = False"
| "float_less PosInf _ = False"
| "float_less _ PosInf = True"

definition py_min :: "pyfloat \<Rightarrow> pyfloat \<Rightarrow> pyfloat" where
  "py_min a b = (if float_less b a then b else a)"


section \<open>Loops that an exception may leave\<close>

text \<open>
  A step returns the state it reached and the exception it raised, if any. The loop
  stops at the first exception and keeps the state of that moment: what was written or
  emitted before stays.
\<close>

fun for_each :: "('a \<Rightarrow> 's \<Rightarrow> 's \<times> py_error option) \<Rightarrow> 'a list \<Rightarrow> 's \<Rightarrow> 's \<times> py_error option" where
  "for_each step [] st = (st, None)"
| "for_each step (x # xs) st =
     (case step x st of
        (st', None) \<Rightarrow> for_each step xs st'
      | (st', Some err) \<Rightarrow> (st', Some err))"

text \<open>\<^verbatim>\<open>range(a, b)\<close>.\<close>

definition py_range :: "int \<Rightarrow> int \<Rightarrow> int list" where
  "py_range a b = map (\<lambda>k. a + int k) [0..<nat (b - a)]"

text \<open>\<^verbatim>\<open>xs[i]\<close>: a negative index counts from the end, and an index outside raises.\<close>

definition py_index :: "'a list \<Rightarrow> int \<Rightarrow> py_error + 'a" where
  "py_index xs i =
     (let n = int (length xs);
          j = (if i < 0 then n + i else i)
      in if j < 0 \<or> n \<le> j then Inl IndexError else Inr (xs ! nat j))"

definition py_floordiv :: "int \<Rightarrow> int \<Rightarrow> py_error + int" where
  "py_floordiv a b = (if b = 0 then Inl ZeroDivisionError else Inr (a div b))"

section \<open>Page rotation\<close>

text \<open>
  Modelled from the spec: the page object of the PDF library, which is not part of the
  repository. The spec gives a page a rotation in degrees and says that a rotation
  ``adds delta to each selected PageRef's stored rotation, then normalizes to
  \<open>[0, 360)\<close>''. \<open>legacy_api\<close> says that the library is an old one, whose pages have no
  \<^verbatim>\<open>rotate\<close> method (the call raises) and offer \<^verbatim>\<open>rotate_clockwise\<close> and
  \<^verbatim>\<open>rotate_counter_clockwise\<close> instead.
\<close>

record page =
  rotation :: int
  legacy_api :: bool

definition page_rotate :: "page \<Rightarrow> int \<Rightarrow> py_error + page" where
  "page_rotate pg deg =
     (if legacy_api pg then Inl AttributeError
      else Inr (pg\<lparr>rotation := (rotation pg + deg) mod 360\<rparr>))"

definition page_rotate_clockwise :: "page \<Rightarrow> int \<Rightarrow> page" where
  "page_rotate_clockwise pg deg = pg\<lparr>rotation := (rotation pg + deg) mod 360\<rparr>"

definition page_rotate_counter_clockwise :: "page \<Rightarrow> int \<Rightarrow> page" where
  "page_rotate_counter_clockwise pg deg = pg\<lparr>rotation := (rotation pg - deg) mod 360\<rparr>"

text \<open>\<^verbatim>\<open>rotate_page_inplace(page, deg)\<close>, from the source; the result is the page after the call.\<close>

definition rotate_page_inplace :: "page \<Rightarrow> int \<Rightarrow> page" where
  "rotate_page_inplace pg deg =
     (case page_rotate pg deg of
        Inr pg' \<Rightarrow> pg'
      | Inl err \<Rightarrow>
          if deg mod 360 = 90 then page_rotate_clockwise pg 90
          else if deg mod 360 = 180 then page_rotate_clockwise pg 180
          else if deg mod 360 = 270 then page_rotate_counter_clockwise pg 90
          else pg)"

text \<open>
  The page list of the edit tab. \<^verbatim>\<open>_edit_pages\<close> holds references to page objects, and
  duplicating a page appends the same reference again, so the list is a list of
  addresses into a store of pages.
\<close>

record edit_state =
  edit_pages :: "nat list"
  heap :: "nat \<Rightarrow> page"

text \<open>\<^verbatim>\<open>rotate_page_inplace(self._edit_pages[r], deg)\<close> for one row.\<close>

definition rotate_row :: "int \<Rightarrow> nat \<Rightarrow> edit_state \<Rightarrow> edit_state \<times> py_error option" where
  "rotate_row deg r st =
     (if r < length (edit_pages st)
      then (let a = edit_pages st ! r
            in (st\<lparr>heap := (heap st)(a := rotate_page_inplace (heap st a) deg)\<rparr>, None))
      else (st, Some IndexError))"

text \<open>
  \<^verbatim>\<open>on_edit_rotate(deg)\<close>. \<open>selected\<close> are the rows of the selected indexes of the
  list widget; the source sorts the set of them. The dialogs, the refresh of the widget
  and the log line are not part of the state.
\<close>

definition on_edit_rotate :: "edit_state \<Rightarrow> nat list \<Rightarrow> int \<Rightarrow> edit_state \<times> py_error option" where
  "on_edit_rotate st selected deg =
     (if edit_pages st = [] then (st, None)
      else (let rows = sorted_list_of_set (set selected)
            in if rows = [] then (st, None)
               else for_each (rotate_row deg) rows st))"

section \<open>Events of the workers\<close>

text \<open>
  The four signals of a worker. The texts of the messages are Japanese sentences built
  around a path; a message is represented by its kind and the values it is built from.
\<close>

datatype message_text =
  MsgLoading string
  | MsgSkipEncrypted string
  | MsgBookmarkFailed string
  | MsgSkipError string py_error
  | MsgOutput string int int

datatype failure =
  NoMergeItems
  | SourceMissing
  | EncryptedSource
  | BadRanges
  | Traceback py_error

datatype event =
  Progress int
  | Message message_text
  | FinishedOk string
  | FinishedError failure

text \<open>
  A PDF file as \<^verbatim>\<open>PdfReader\<close> shows it: whether opening raises, whether the document
  is encrypted, whether \<^verbatim>\<open>decrypt("")\<close> raises, whether reading \<^verbatim>\<open>reader.pages\<close>
  raises (as it does on a document that is still encrypted), and the pages.
\<close>

record 'p pdf_file =
  open_raises :: bool
  is_encrypted :: bool
  decrypt_raises :: bool
  pages_raise :: bool
  pages :: "'p list"

section \<open>The merge worker\<close>

record PdfItem =
  path :: string
  size_bytes :: int

record MergeWorker =
  items :: "PdfItem list"
  out_path :: string
  add_bookmarks :: bool

text \<open>
  What the run meets outside the program: the file behind each path, whether
  \<^verbatim>\<open>add_outline_item\<close> raises for the item of a path, \<^verbatim>\<open>os.path.basename\<close>, and whether
  creating the directory or writing the output raises.
\<close>

record 'p merge_env =
  open_pdf :: "string \<Rightarrow> 'p pdf_file"
  outline_raises :: "string \<Rightarrow> bool"
  basename :: "string \<Rightarrow> string"
  write_raises :: bool

record 'p pdf_writer =
  w_pages :: "'p list"
  w_outline :: "(string \<times> nat) list"

record 'p merge_state =
  writer :: "'p pdf_writer"
  n_done :: int
  emitted :: "event list"

record 'p merge_result =
  merge_events :: "event list"
  merge_output :: "'p pdf_writer option"

definition emit :: "event \<Rightarrow> 'p merge_state \<Rightarrow> 'p merge_state" where
  "emit ev st = st\<lparr>emitted := emitted st @ [ev]\<rparr>"

text \<open>\<^verbatim>\<open>done += 1; self.progress.emit(int(done/total*100))\<close>.\<close>

definition bump_progress :: "int \<Rightarrow> 'p merge_state \<Rightarrow> 'p merge_state \<times> py_error option" where
  "bump_progress tot st =
     (let st' = st\<lparr>n_done := n_done st + 1\<rparr>
      in case percent (n_done st') tot of
           Inl err \<Rightarrow> (st', Some err)
         | Inr pc \<Rightarrow> (emit (Progress pc) st', None))"

text \<open>
  The body of the inner \<^verbatim>\<open>try\<close> for one item. The branch of the encrypted document
  whose \<^verbatim>\<open>decrypt("")\<close> raises emits the skip message, counts the item and reports the
  progress itself before its \<^verbatim>\<open>continue\<close>.
\<close>

definition merge_item_body ::
  "'p merge_env \<Rightarrow> bool \<Rightarrow> int \<Rightarrow> PdfItem \<Rightarrow> 'p merge_state \<Rightarrow> 'p merge_state \<times> py_error option" where
  "merge_item_body env bookmarks tot item st =
     (let f = open_pdf env (path item) in
      if open_raises f then (st, Some OSError)
      else if is_encrypted f \<and> decrypt_raises f then
        bump_progress tot (emit (Message (MsgSkipEncrypted (path item))) st)
      else if pages_raise f then (st, Some OSError)
      else
        (let start_page_index = length (w_pages (writer st));
             st1 = st\<lparr>writer := (writer st)\<lparr>w_pages := w_pages (writer st) @ pages f\<rparr>\<rparr>
         in if bookmarks then
              (if outline_raises env (path item)
               then (emit (Message (MsgBookmarkFailed (basename env (path item)))) st1, None)
               else (st1\<lparr>writer := (writer st1)\<lparr>w_outline := w_outline (writer st1)
                         @ [(basename env (path item), start_page_index)]\<rparr>\<rparr>, None))
            else (st1, None)))"

text \<open>
  One round of the loop: the message, the body, the \<^verbatim>\<open>except Exception\<close> handler and
  the \<^verbatim>\<open>finally\<close> clause. Python runs the \<^verbatim>\<open>finally\<close> clause on every way out of
  the \<^verbatim>\<open>try\<close>, the \<^verbatim>\<open>continue\<close> included. An exception of the \<^verbatim>\<open>finally\<close> clause
  leaves the loop.
\<close>

definition merge_item ::
  "'p merge_env \<Rightarrow> bool \<Rightarrow> int \<Rightarrow> PdfItem \<Rightarrow> 'p merge_state \<Rightarrow> 'p merge_state \<times> py_error option" where
  "merge_item env bookmarks tot item st0 =
     (let st = emit (Message (MsgLoading (path item))) st0
      in case merge_item_body env bookmarks tot item st of
           (st1, None) \<Rightarrow> bump_progress tot st1
         | (st1, Some err) \<Rightarrow>
             bump_progress tot (emit (Message (MsgSkipError (path item) err)) st1))"

definition MergeWorker_run :: "'p merge_env \<Rightarrow> MergeWorker \<Rightarrow> 'p merge_result" where
  "MergeWorker_run env w =
     (if items w = [] then
        \<lparr>merge_events = [FinishedError NoMergeItems], merge_output = None\<rparr>
      else
        (let tot = int (length (items w));
             st0 = \<lparr>writer = \<lparr>w_pages = [], w_outline = []\<rparr>, n_done = 0, emitted = []\<rparr>
         in case for_each (merge_item env (add_bookmarks w) tot) (items w) st0 of
              (st, Some err) \<Rightarrow>
                \<lparr>merge_events = emitted st @ [FinishedError (Traceback err)], merge_output = None\<rparr>
            | (st, None) \<Rightarrow>
                if write_raises env then
                  \<lparr>merge_events = emitted st @ [FinishedError (Traceback OSError)],
                   merge_output = None\<rparr>
                else
                  \<lparr>merge_events = emitted st @ [FinishedOk (out_path w)],
                   merge_output = Some (writer st)\<rparr>))"

text \<open>The values of the progress events of a run, in the order of emission.\<close>

fun progress_values :: "event list \<Rightarrow> int list" where
  "progress_values [] = []"
| "progress_values (Progress pc # evs) = pc # progress_values evs"
| "progress_values (ev # evs) = progress_values evs"

fun message_texts :: "event list \<Rightarrow> message_text list" where
  "message_texts [] = []"
| "message_texts (Message m # evs) = m # message_texts evs"
| "message_texts (ev # evs) = message_texts evs"


section \<open>The split worker\<close>

subsection \<open>\<^verbatim>\<open>str(int)\<close> and \<^verbatim>\<open>str.zfill\<close>\<close>

definition digit_char :: "nat \<Rightarrow> char" where
  "digit_char d = char_of (48 + d)"

fun str_nat :: "nat \<Rightarrow> string" where
  "str_nat n = (if n < 10 then [digit_char n] else str_nat (n div 10) @ [digit_char (n mod 10)])"

declare str_nat.simps [simp del]

definition str_int :: "int \<Rightarrow> string" where
  "str_int i = (if i < 0 then CHR ''-'' # str_nat (nat (- i)) else str_nat (nat i))"

text \<open>
  \<^verbatim>\<open>s.zfill(width)\<close>: zeros are put in front until the string has \<open>width\<close>
  characters, after a leading sign where there is one.
\<close>

definition zfill :: "int \<Rightarrow> string \<Rightarrow> string" where
  "zfill width s =
     (if width \<le> int (length s) then s
      else (let fill = replicate (nat (width - int (length s))) (CHR ''0'')
            in case s of
                 [] \<Rightarrow> fill
               | c # cs \<Rightarrow> if c = CHR ''+'' \<or> c = CHR ''-'' then c # fill @ cs else fill @ s))"

subsection \<open>The worker\<close>

record SplitWorker =
  src_path :: string
  out_dir :: string
  filename_prefix :: string
  mode :: string
  chunk_size :: int
  ranges_text :: string
  pad :: int
  start_index :: int

definition MODE_EACH :: string where "MODE_EACH = ''each''"
definition MODE_CHUNK :: string where "MODE_CHUNK = ''chunk''"
definition MODE_RANGES :: string where "MODE_RANGES = ''ranges''"

text \<open>\<^verbatim>\<open>SplitWorker.__init__\<close>; \<^verbatim>\<open>filename_prefix or "split"\<close> replaces the empty string.\<close>

definition SplitWorker_init ::
  "string \<Rightarrow> string \<Rightarrow> string \<Rightarrow> string \<Rightarrow> int \<Rightarrow> string \<Rightarrow> int \<Rightarrow> int \<Rightarrow> SplitWorker" where
  "SplitWorker_init src_path' out_dir' filename_prefix' mode' chunk_size' ranges_text' pad'
      start_index' =
     \<lparr>src_path = src_path',
      out_dir = out_dir',
      filename_prefix = (if filename_prefix' = [] then ''split'' else filename_prefix'),
      mode = mode',
      chunk_size = max 1 chunk_size',
      ranges_text = ranges_text',
      pad = max 1 pad',
      start_index = start_index'\<rparr>"

text \<open>
  What the run meets outside the program: whether the source exists, whether creating
  the output directory raises, the source as the reader shows it, whether writing the
  output file of a given path raises, \<^verbatim>\<open>os.path.join\<close>, and the digit limit of
  \<^verbatim>\<open>int\<close>.
\<close>

record 'p split_env =
  src_exists :: bool
  makedirs_raises :: bool
  src_file :: "'p pdf_file"
  write_fails :: "string \<Rightarrow> bool"
  path_join :: "string \<Rightarrow> string \<Rightarrow> string"
  max_str_digits :: nat

text \<open>An output file: its path, the span \<^verbatim>\<open>s1\<close>, \<^verbatim>\<open>e1\<close> it was written for, its pages.\<close>

record 'p out_file =
  file_path :: string
  first_page :: int
  last_page :: int
  content :: "'p list"

record 'p split_state =
  idx :: int
  written :: "'p out_file list"
  s_events :: "event list"

record 'p split_result =
  split_events :: "event list"
  split_files :: "'p out_file list"

text \<open>The file name \<^verbatim>\<open>f"{self.filename_prefix}_{str(idx).zfill(self.pad)}.pdf"\<close>.\<close>

definition output_name :: "SplitWorker \<Rightarrow> int \<Rightarrow> string" where
  "output_name w i = filename_prefix w @ ''_'' @ zfill (pad w) (str_int i) @ ''.pdf''"

text \<open>\<^verbatim>\<open>[reader.pages[p] for p in ps]\<close>, stopping at the first index that raises.\<close>

fun get_pages :: "'p list \<Rightarrow> int list \<Rightarrow> py_error + 'p list" where
  "get_pages src [] = Inr []"
| "get_pages src (p # ps) =
     (case py_index src p of
        Inl err \<Rightarrow> Inl err
      | Inr pg \<Rightarrow> (case get_pages src ps of
                     Inl err \<Rightarrow> Inl err
                   | Inr pgs \<Rightarrow> Inr (pg # pgs)))"

text \<open>
  \<^verbatim>\<open>write_range(s1, e1)\<close>: the pages \<^verbatim>\<open>range(s1 - 1, e1)\<close> are collected, the file is
  written, the message is emitted and \<^verbatim>\<open>idx\<close> is advanced. A write that raises leaves
  no complete file.
\<close>

definition write_range ::
  "'p split_env \<Rightarrow> SplitWorker \<Rightarrow> int \<Rightarrow> int \<Rightarrow> 'p split_state \<Rightarrow> 'p split_state \<times> py_error option" where
  "write_range env w s1 e1 st =
     (case get_pages (pages (src_file env)) (py_range (s1 - 1) e1) of
        Inl err \<Rightarrow> (st, Some err)
      | Inr pgs \<Rightarrow>
          (let out = path_join env (out_dir w) (output_name w (idx st))
           in if write_fails env out then (st, Some OSError)
              else (st\<lparr>written := written st
                          @ [\<lparr>file_path = out, first_page = s1, last_page = e1, content = pgs\<rparr>],
                        s_events := s_events st @ [Message (MsgOutput out s1 e1)],
                        idx := idx st + 1\<rparr>, None)))"

text \<open>\<^verbatim>\<open>self.progress.emit(int(a / b * 100))\<close>.\<close>

definition emit_progress :: "int \<Rightarrow> int \<Rightarrow> 'p split_state \<Rightarrow> 'p split_state \<times> py_error option" where
  "emit_progress a b st =
     (case percent a b of
        Inl err \<Rightarrow> (st, Some err)
      | Inr pc \<Rightarrow> (st\<lparr>s_events := s_events st @ [Progress pc]\<rparr>, None))"

text \<open>A round of each of the three loops: \<^verbatim>\<open>write_range\<close>, then the progress.\<close>

definition write_then_progress ::
  "'p split_env \<Rightarrow> SplitWorker \<Rightarrow> int \<Rightarrow> int \<Rightarrow> int \<Rightarrow> int \<Rightarrow> 'p split_state
     \<Rightarrow> 'p split_state \<times> py_error option" where
  "write_then_progress env w s1 e1 a b st =
     (case write_range env w s1 e1 st of
        (st', Some err) \<Rightarrow> (st', Some err)
      | (st', None) \<Rightarrow> emit_progress a b st')"

definition each_step ::
  "'p split_env \<Rightarrow> SplitWorker \<Rightarrow> int \<Rightarrow> int \<Rightarrow> 'p split_state \<Rightarrow> 'p split_state \<times> py_error option" where
  "each_step env w tot p = write_then_progress env w p p p tot"

definition chunk_step ::
  "'p split_env \<Rightarrow> SplitWorker \<Rightarrow> int \<Rightarrow> int \<Rightarrow> 'p split_state \<Rightarrow> 'p split_state \<times> py_error option" where
  "chunk_step env w tot c =
     (let s = c * chunk_size w + 1;
          e = min tot ((c + 1) * chunk_size w)
      in write_then_progress env w s e e tot)"

definition range_step ::
  "'p split_env \<Rightarrow> SplitWorker \<Rightarrow> int \<Rightarrow> int \<times> (int \<times> int) \<Rightarrow> 'p split_state
     \<Rightarrow> 'p split_state \<times> py_error option" where
  "range_step env w n_ranges ir =
     (case ir of (i, (s, e)) \<Rightarrow> write_then_progress env w s e i n_ranges)"

text \<open>\<^verbatim>\<open>enumerate(rs, start=1)\<close>.\<close>

definition enumerate1 :: "'a list \<Rightarrow> (int \<times> 'a) list" where
  "enumerate1 xs = zip (py_range 1 (int (length xs) + 1)) xs"

text \<open>The chunk count \<^verbatim>\<open>(total + self.chunk_size - 1) // self.chunk_size\<close>.\<close>

definition chunk_count :: "int \<Rightarrow> int \<Rightarrow> py_error + int" where
  "chunk_count tot size' = py_floordiv (tot + size' - 1) size'"

text \<open>
  The end of a run that reached the loops: \<^verbatim>\<open>finished_ok\<close>, or the traceback of the
  exception that left the loop; the files written until then stay.
\<close>

definition finish_split :: "SplitWorker \<Rightarrow> 'p split_state \<times> py_error option \<Rightarrow> 'p split_result" where
  "finish_split w r =
     (case r of
        (st, None) \<Rightarrow>
          \<lparr>split_events = s_events st @ [FinishedOk (out_dir w)], split_files = written st\<rparr>
      | (st, Some err) \<Rightarrow>
          \<lparr>split_events = s_events st @ [FinishedError (Traceback err)],
           split_files = written st\<rparr>)"

definition failed_split :: "failure \<Rightarrow> 'p split_result" where
  "failed_split why = \<lparr>split_events = [FinishedError why], split_files = []\<rparr>"

definition SplitWorker_run :: "'p split_env \<Rightarrow> SplitWorker \<Rightarrow> 'p split_result" where
  "SplitWorker_run env w =
     (if \<not> src_exists env then failed_split SourceMissing
      else if makedirs_raises env then failed_split (Traceback OSError)
      else if open_raises (src_file env) then failed_split (Traceback OSError)
      else if is_encrypted (src_file env) \<and> decrypt_raises (src_file env)
        then failed_split EncryptedSource
      else if pages_raise (src_file env) then failed_split (Traceback OSError)
      else
        (let tot = int (length (pages (src_file env)));
             st0 = \<lparr>idx = start_index w, written = [], s_events = []\<rparr>
         in if mode w = MODE_EACH then
              finish_split w (for_each (each_step env w tot) (py_range 1 (tot + 1)) st0)
            else if mode w = MODE_CHUNK then
              (case chunk_count tot (chunk_size w) of
                 Inl err \<Rightarrow> failed_split (Traceback err)
               | Inr chunks \<Rightarrow>
                   finish_split w (for_each (chunk_step env w tot) (py_range 0 chunks) st0))
            else
              (let rs = parse_ranges (max_str_digits env) (ranges_text w) tot
               in if rs = [] then failed_split BadRanges
                  else finish_split w
                         (for_each (range_step env w (int (length rs))) (enumerate1 rs) st0))))"

text \<open>The span of an output file.\<close>

definition span :: "'p out_file \<Rightarrow> int \<times> int" where
  "span f = (first_page f, last_page f)"

section \<open>The scale of the preview\<close>

text \<open>
  The scale computation of \<^verbatim>\<open>_render_preview\<close>. \<open>viewport_width\<close> and
  \<open>viewport_height\<close> are the size of the viewport of the scroll area, \<open>pw\<close> and
  \<open>ph\<close> the width and height of the page rectangle (floats), \<open>zoom_mode\<close> and
  \<open>preview_scale\<close> the two attributes of the window. The source takes 6 pixels off each
  side of the viewport and keeps at least 1.
\<close>

definition render_scale ::
  "string \<Rightarrow> pyfloat \<Rightarrow> int \<Rightarrow> int \<Rightarrow> rat \<Rightarrow> rat \<Rightarrow> py_error + pyfloat" where
  "render_scale zoom_mode preview_scale viewport_width viewport_height pw ph =
     (let vw = max 1 (viewport_width - 6);
          vh = max 1 (viewport_height - 6)
      in if zoom_mode = ''fitw'' then float_truediv (of_int vw) pw
         else if zoom_mode = ''fitp'' then
           (case float_truediv (of_int vw) pw of
              Inl err \<Rightarrow> Inl err
            | Inr sw \<Rightarrow> (case float_truediv (of_int vh) ph of
                           Inl err \<Rightarrow> Inl err
                         | Inr sh \<Rightarrow> Inr (py_min sw sh)))
         else Inr preview_scale)"

section \<open>What a merged item contributes\<close>

text \<open>
  An item of a merge plan is merged when its document opens, is not an encrypted
  document whose \<^verbatim>\<open>decrypt("")\<close> raises, and its pages can be read. These are the
  three ways in which \<open>merge_item_body\<close> leaves an item without adding a page.
\<close>

definition item_merged :: "'p merge_env \<Rightarrow> PdfItem \<Rightarrow> bool" where
  "item_merged env item =
     (\<not> open_raises (open_pdf env (path item))
      \<and> \<not> (is_encrypted (open_pdf env (path item)) \<and> decrypt_raises (open_pdf env (path item)))
      \<and> \<not> pages_raise (open_pdf env (path item)))"

section \<open>Sample inputs\<close>

text \<open>
  Concrete inputs on which the theorems below are run. The pages of a sample document
  are numbers. In the edit state the rows 0 and 2 hold the same page object (row 2 is a
  duplicate of row 0), and the object of row 1 comes from an old library.
\<close>

definition sample_edit_state :: edit_state where
  "sample_edit_state =
     \<lparr>edit_pages = [0, 1, 0],
      heap = (\<lambda>a. \<lparr>rotation = 90 * int a, legacy_api = (a = 1)\<rparr>)\<rparr>"

definition sample_pdf :: "nat \<Rightarrow> nat pdf_file" where
  "sample_pdf n =
     \<lparr>open_raises = False, is_encrypted = False, decrypt_raises = False,
      pages_raise = False, pages = [1..<Suc n]\<rparr>"

text \<open>
  Two encrypted documents of two pages that the empty password does not open: for
  \<open>locked_pdf\<close> the call \<^verbatim>\<open>decrypt("")\<close> raises; for \<open>sealed_pdf\<close> it returns and
  the pages still cannot be read.
\<close>

definition locked_pdf :: "nat pdf_file" where
  "locked_pdf =
     \<lparr>open_raises = False, is_encrypted = True, decrypt_raises = True,
      pages_raise = True, pages = [901, 902]\<rparr>"

definition sealed_pdf :: "nat pdf_file" where
  "sealed_pdf = locked_pdf\<lparr>decrypt_raises := False\<rparr>"

definition sample_split_env :: "nat \<Rightarrow> nat split_env" where
  "sample_split_env n =
     \<lparr>src_exists = True, makedirs_raises = False, src_file = sample_pdf n,
      write_fails = (\<lambda>p. False), path_join = (\<lambda>d f. d @ ''/'' @ f),
      max_str_digits = 4300\<rparr>"

text \<open>
  A directory for the merge worker: \<^verbatim>\<open>locked.pdf\<close> and \<^verbatim>\<open>sealed.pdf\<close> are the two
  encrypted documents, every other path is a document of one page, the length of the
  path.
\<close>

definition sample_merge_env :: "nat merge_env" where
  "sample_merge_env =
     \<lparr>open_pdf = (\<lambda>p. if p = ''locked.pdf'' then locked_pdf
                      else if p = ''sealed.pdf'' then sealed_pdf
                      else (sample_pdf 1)\<lparr>pages := [length p]\<rparr>),
      outline_raises = (\<lambda>p. False),
      basename = (\<lambda>p. p),
      write_raises = False\<rparr>"

definition merge_plan :: "string list \<Rightarrow> MergeWorker" where
  "merge_plan ps =
     \<lparr>items = map (\<lambda>p. \<lparr>path = p, size_bytes = 1024\<rparr>) ps,
      out_path = ''merged.pdf'',
      add_bookmarks = True\<rparr>"

section \<open>Bounds on the binary64 rounding\<close>

lemma ilog2_bounds:
  "0 < x \<Longrightarrow> 2 powi (ilog2 x) \<le> x \<and> x < 2 powi (ilog2 x + 1)"
proof (induction x rule: ilog2.induct)
  case (1 x)
  show ?case
  proof (cases "2 \<le> x")
    case True
    with "1.prems" have e: "ilog2 x = ilog2 (x / 2) + 1"
      by (subst ilog2.simps) simp
    have "2 powi (ilog2 (x / 2)) \<le> x / 2 \<and> x / 2 < 2 powi (ilog2 (x / 2) + 1)"
      using "1.IH"(1) "1.prems" True by simp
    then show ?thesis
      unfolding e by (simp add: power_int_add field_simps)
  next
    case False
    show ?thesis
    proof (cases "x < 1")
      case True
      with "1.prems" False have e: "ilog2 x = ilog2 (2 * x) - 1"
        by (subst ilog2.simps) simp
      have "2 powi (ilog2 (2 * x)) \<le> 2 * x \<and> 2 * x < 2 powi (ilog2 (2 * x) + 1)"
        using "1.IH"(2) "1.prems" False True by simp
      then show ?thesis
        unfolding e by (simp add: power_int_add power_int_diff field_simps)
    next
      case ge: False
      with "1.prems" False have e: "ilog2 x = 0"
        by (subst ilog2.simps) simp
      show ?thesis
        unfolding e using ge False by simp
    qed
  qed
qed

lemma ilog2_less:
  assumes "0 < x" "x < 2 powi k"
  shows "ilog2 x < k"
proof (rule ccontr)
  assume "\<not> ilog2 x < k"
  then have "k \<le> ilog2 x" by simp
  then have "(2::rat) powi k \<le> 2 powi (ilog2 x)"
    by (intro power_int_increasing) simp_all
  with ilog2_bounds [OF assms(1)] assms(2) show False by linarith
qed

lemma ilog2_le:
  assumes "0 < x" "x \<le> 2 powi k"
  shows "ilog2 x \<le> k"
proof -
  have "(2::rat) powi k < 2 powi (k + 1)"
    by (intro power_int_strict_increasing) simp_all
  with assms have "ilog2 x < k + 1" by (intro ilog2_less) simp_all
  then show ?thesis by simp
qed

lemma round_half_even_le:
  assumes "x \<le> of_int n"
  shows "round_half_even x \<le> n"
proof -
  have f: "\<lfloor>x\<rfloor> \<le> n" using assms by (simp add: floor_le_iff)
  show ?thesis
  proof (cases "\<lfloor>x\<rfloor> = n")
    case True
    then have "x - of_int \<lfloor>x\<rfloor> \<le> 0" using assms by simp
    then show ?thesis using True by (simp add: round_half_even_def Let_def)
  next
    case False
    with f have "\<lfloor>x\<rfloor> + 1 \<le> n" by simp
    then show ?thesis by (auto simp: round_half_even_def Let_def)
  qed
qed

lemma round_half_even_ge:
  assumes "of_int n \<le> x"
  shows "n \<le> round_half_even x"
proof -
  have "n \<le> \<lfloor>x\<rfloor>" using assms by (simp add: le_floor_iff)
  then show ?thesis by (auto simp: round_half_even_def Let_def)
qed

lemma round_binary64_nonneg:
  assumes "0 \<le> x"
  shows "0 \<le> round_binary64 x"
proof (cases "x = 0")
  case True
  then show ?thesis by (simp add: round_binary64_def)
next
  case False
  define q :: rat where "q = 2 powi (max (ilog2 \<bar>x\<bar>) (- 1022) - 52)"
  have q: "0 < q" by (simp add: q_def)
  have "of_int 0 \<le> x / q" using assms q by simp
  then have "0 \<le> round_half_even (x / q)" by (rule round_half_even_ge)
  then show ?thesis
    using False q by (simp add: round_binary64_def Let_def q_def [symmetric])
qed

lemma round_binary64_le_power:
  assumes "0 \<le> x" "x \<le> 2 powi k" "- 1074 \<le> k"
  shows "round_binary64 x \<le> 2 powi k"
proof (cases "x = 0")
  case True
  then show ?thesis by (simp add: round_binary64_def)
next
  case False
  with assms have pos: "0 < x" by simp
  define e where "e = max (ilog2 \<bar>x\<bar>) (- 1022)"
  define q :: rat where "q = 2 powi (e - 52)"
  have q: "0 < q" by (simp add: q_def)
  have "ilog2 \<bar>x\<bar> \<le> k" using pos assms(2) by (simp add: ilog2_le)
  with assms(3) have ek: "0 \<le> k - e + 52" by (simp add: e_def)
  have "(2::rat) powi k = 2 powi (k - e + 52) * q"
    by (simp add: q_def flip: power_int_add)
  also have "(2::rat) powi (k - e + 52) = of_int (2 ^ nat (k - e + 52))"
    using ek by (simp add: power_int_def)
  finally have pk: "(2::rat) powi k = of_int (2 ^ nat (k - e + 52)) * q" .
  have "x / q \<le> of_int (2 ^ nat (k - e + 52))"
    using assms(2) q unfolding pk by (simp add: field_simps)
  then have "round_half_even (x / q) \<le> 2 ^ nat (k - e + 52)"
    by (rule round_half_even_le)
  then have "of_int (round_half_even (x / q)) * q \<le> of_int (2 ^ nat (k - e + 52)) * q"
    using q by (simp del: of_int_power)
  then show ?thesis
    using False unfolding pk
    by (simp add: round_binary64_def Let_def e_def [symmetric] q_def [symmetric])
qed

lemma to_float_finite:
  assumes "0 \<le> x" "x \<le> 2 powi k" "- 1074 \<le> k" "k < 1024"
  shows "to_float x = Finite (round_binary64 x)"
proof -
  have nn: "0 \<le> round_binary64 x" using assms(1) by (rule round_binary64_nonneg)
  have le: "round_binary64 x \<le> 2 powi k" using assms(1-3) by (rule round_binary64_le_power)
  have "ilog2 \<bar>round_binary64 x\<bar> < 1024"
  proof (cases "round_binary64 x = 0")
    case True
    then show ?thesis by (simp add: ilog2.simps)
  next
    case False
    with nn have pos: "0 < round_binary64 x" by simp
    have "(2::rat) powi k < 2 powi 1024"
      using assms(4) by (intro power_int_strict_increasing) simp_all
    with le have "round_binary64 x < 2 powi 1024" by linarith
    with pos show ?thesis using nn by (simp add: ilog2_less)
  qed
  then show ?thesis by (simp add: to_float_def Let_def)
qed

lemma percent_ok:
  assumes "0 < b" "0 \<le> a" "a \<le> 2 * b"
  shows "\<exists>pc. percent a b = Inr pc"
proof -
  define x :: rat where "x = of_int a / of_int b"
  have x0: "0 \<le> x" using assms by (simp add: x_def)
  have "(of_int a :: rat) \<le> 2 * of_int b"
    using assms(3) by (metis of_int_le_iff of_int_mult of_int_numeral)
  then have x2: "x \<le> 2 powi 1" using assms(1) by (simp add: x_def field_simps)
  have fx: "to_float x = Finite (round_binary64 x)"
    using x0 x2 by (rule to_float_finite) simp_all
  have r0: "0 \<le> round_binary64 x" using x0 by (rule round_binary64_nonneg)
  have "round_binary64 x \<le> 2 powi 1" using x0 x2 by (rule round_binary64_le_power) simp
  then have r2: "round_binary64 x * 100 \<le> 2 powi 8" by simp
  have fy: "to_float (round_binary64 x * 100) = Finite (round_binary64 (round_binary64 x * 100))"
    using _ r2 by (rule to_float_finite) (use r0 in simp_all)
  show ?thesis
    using assms(1) fx fy
    by (simp add: percent_def int_truediv_def int_of_float_def x_def [symmetric])
qed

section \<open>Properties of the range parser\<close>

lemmas parse_eval_defs =
  parse_ranges_def strip_def is_space_def parse_part_def split_first_def py_int_def
  int_strip_def is_int_space_def
  is_digit_def digit_val_def digits_value_def too_many_digits_def clamp_page_def

lemma parse_part_bounds:
  assumes "parse_part maxd n raw = Some (s, e)" and "1 \<le> n"
  shows "1 \<le> s \<and> s \<le> e \<and> e \<le> n"
  using assms
  by (auto simp: parse_part_def clamp_page_def Let_def
      split: if_splits option.splits prod.splits)

lemma parse_loop_map_filter:
  "parse_loop maxd n parts rngs = rngs @ List.map_filter (parse_part maxd n) parts"
  by (induction parts arbitrary: rngs) (auto split: option.splits)

lemma parse_ranges_map_filter:
  "parse_ranges maxd txt n
     = List.map_filter (parse_part maxd n) (split_on (CHR '','') (strip txt))"
proof (cases "strip txt = []")
  case True
  have "parse_part maxd n [] = None"
    by (simp add: parse_part_def strip_def)
  with True show ?thesis
    by (simp add: parse_ranges_def)
next
  case False
  then show ?thesis
    by (simp add: parse_ranges_def parse_loop_map_filter)
qed

lemma map_filter_all:
  "(\<And>x y. f x = Some y \<Longrightarrow> P y) \<Longrightarrow> list_all P (List.map_filter f xs)"
  by (induction xs) (auto split: option.splits)

text \<open>
  The four separators: \<^verbatim>\<open>str.strip\<close> drops them around the whole text and around a
  part, and \<^verbatim>\<open>int\<close> refuses them. A start that ends in FS drops the part, an end
  that begins with FS falls back to the start, and NEL or a no-break space next to a
  number is dropped by \<^verbatim>\<open>int\<close>.
\<close>

lemma parse_ranges_separators:
  "parse_ranges maxd [CHR ''1'', CHR 0x1C, CHR ''-'', CHR ''3''] 10 = []"
  "parse_ranges maxd [CHR ''1'', CHR ''-'', CHR 0x1C, CHR ''3''] 10 = [(1, 1)]"
  "parse_ranges maxd [CHR 0x1C, CHR ''1'', CHR ''-'', CHR ''3'', CHR 0x1F] 10 = [(1, 3)]"
  "parse_ranges maxd [CHR ''1'', CHR 0xA0, CHR ''-'', CHR 0x85, CHR ''3''] 10 = [(1, 3)]"
  "parse_ranges maxd [CHR ''2'', CHR 0x1D] 10 = [(2, 2)]"
  "parse_ranges maxd [CHR ''2'', CHR 0x1D, CHR '','', CHR ''4''] 10 = [(2, 2), (4, 4)]"
  by (simp_all add: parse_eval_defs)

text \<open>
  Claim C2. The parser gives the results of the five reference examples:
  \<^verbatim>\<open>"1-3,5,7-10"\<close> on 10 pages gives \<open>[(1,3),(5,5),(7,10)]\<close>; \<^verbatim>\<open>"5-2"\<close> gives
  \<open>[(2,5)]\<close>, the endpoints swapped; \<^verbatim>\<open>"0,99"\<close> gives \<open>[(1,1),(10,10)]\<close>, the
  endpoints clamped; the empty text gives the empty list for every page count; and
  \<^verbatim>\<open>"abc"\<close> gives the empty list. This holds for every digit limit of the interpreter.
\<close>

theorem parse_ranges_examples:
  "parse_ranges maxd ''1-3,5,7-10'' 10 = [(1, 3), (5, 5), (7, 10)]
   \<and> parse_ranges maxd ''5-2'' 10 = [(2, 5)]
   \<and> parse_ranges maxd ''0,99'' 10 = [(1, 1), (10, 10)]
   \<and> parse_ranges maxd '''' N = []
   \<and> parse_ranges maxd ''abc'' 10 = []"
  by (simp add: parse_eval_defs)

text \<open>
  Claim C7, as stated, for every \<open>total_pages\<close>: every interval \<open>(start, end)\<close> of
  the result has \<open>1 \<le> start \<le> end \<le> total_pages\<close>. It fails for a document without
  pages: the source clamps with \<^verbatim>\<open>max(1, min(total_pages, v))\<close>, so the lower bound 1
  wins over the upper bound, and the text \<^verbatim>\<open>"1"\<close> on 0 pages gives the interval
  \<open>(1, 1)\<close>, whose end is above \<open>total_pages = 0\<close>.
\<close>

theorem parse_ranges_zero_total_counterexample:
  "parse_ranges 0 ''1'' 0 = [(1, 1)] \<and> \<not> (1::int) \<le> 0"
  by (simp add: parse_eval_defs)

text \<open>
  Claim C7, amended: for every input text and every \<open>total_pages \<ge> 1\<close>, every interval
  \<open>(start, end)\<close> returned by the parser has \<open>1 \<le> start \<le> end \<le> total_pages\<close>; and
  the result is, in the order of the input, exactly one interval for each part between
  commas that survives (\<open>parse_part\<close> gives its interval), nothing merged and nothing
  reordered.
\<close>

theorem parse_ranges_intervals:
  assumes "1 \<le> total_pages"
  shows "list_all (\<lambda>(s, e). 1 \<le> s \<and> s \<le> e \<and> e \<le> total_pages)
           (parse_ranges maxd txt total_pages)
         \<and> parse_ranges maxd txt total_pages
           = List.map_filter (parse_part maxd total_pages) (split_on (CHR '','') (strip txt))"
proof
  show "list_all (\<lambda>(s, e). 1 \<le> s \<and> s \<le> e \<and> e \<le> total_pages)
          (parse_ranges maxd txt total_pages)"
    unfolding parse_ranges_map_filter
    by (rule map_filter_all) (use assms parse_part_bounds in auto)
  show "parse_ranges maxd txt total_pages
          = List.map_filter (parse_part maxd total_pages) (split_on (CHR '','') (strip txt))"
    by (rule parse_ranges_map_filter)
qed

text \<open>
  A run of it: on 10 pages the overlapping parts \<^verbatim>\<open>1-5\<close>, \<^verbatim>\<open>3-7\<close> and the repeated
  \<^verbatim>\<open>1-5\<close> stay three intervals in the order of the text, and the part \<^verbatim>\<open>x\<close> is
  dropped. The second text is \<^verbatim>\<open>4,1\<close>FS\<^verbatim>\<open>-3,2\<close>: the part in the middle has a start
  that \<^verbatim>\<open>int\<close> refuses and is dropped.
\<close>

theorem parse_ranges_intervals_witness:
  "(1::int) \<le> 10
   \<and> list_all (\<lambda>(s, e). 1 \<le> s \<and> s \<le> e \<and> e \<le> 10) (parse_ranges 0 ''1-5,x,3-7,1-5'' 10)
   \<and> parse_ranges 0 ''1-5,x,3-7,1-5'' 10 = [(1, 5), (3, 7), (1, 5)]
   \<and> parse_ranges 0
         [CHR ''4'', CHR '','', CHR ''1'', CHR 0x1C, CHR ''-'', CHR ''3'', CHR '','', CHR ''2''] 10
       = [(4, 4), (2, 2)]"
  using parse_ranges_intervals [of 10 0 "''1-5,x,3-7,1-5''"]
    parse_ranges_intervals [of 10 0
      "[CHR ''4'', CHR '','', CHR ''1'', CHR 0x1C, CHR ''-'', CHR ''3'', CHR '','', CHR ''2'']"]
  by (simp add: parse_eval_defs)

section \<open>Properties of the split worker\<close>

lemmas sample_defs =
  sample_pdf_def locked_pdf_def sealed_pdf_def sample_split_env_def sample_merge_env_def merge_plan_def
  SplitWorker_init_def MODE_EACH_def MODE_CHUNK_def MODE_RANGES_def

text \<open>
  Claim C10. For every chunk size and pad that a caller supplies, zero and negative
  values included, the constructor stores \<open>max 1 chunk_size\<close> and \<open>max 1 pad\<close>. So both
  stored values are at least 1, the chunk count
  \<^verbatim>\<open>(total + chunk_size - 1) // chunk_size\<close> of a constructed worker is a number and
  never the \<^verbatim>\<open>ZeroDivisionError\<close>, and the width of the zero padding is at least 1.
\<close>

theorem split_worker_init_guards:
  "chunk_size (SplitWorker_init src dir pre md cs rt pd st) = max 1 cs
   \<and> pad (SplitWorker_init src dir pre md cs rt pd st) = max 1 pd
   \<and> 1 \<le> chunk_size (SplitWorker_init src dir pre md cs rt pd st)
   \<and> 1 \<le> pad (SplitWorker_init src dir pre md cs rt pd st)
   \<and> chunk_count tot (chunk_size (SplitWorker_init src dir pre md cs rt pd st))
       = Inr ((tot + max 1 cs - 1) div max 1 cs)
   \<and> chunk_count tot (chunk_size (SplitWorker_init src dir pre md cs rt pd st))
       \<noteq> Inl ZeroDivisionError"
  by (simp add: SplitWorker_init_def chunk_count_def py_floordiv_def)

text \<open>
  Claim C4. A split run that fails because the source file does not exist, because the
  source is encrypted and the decrypt attempt with the empty password fails (it raises,
  or it leaves the pages unreadable), or because in the mode of custom ranges the text
  parses to no interval, ends with a failure event, which is its only event, and writes
  no output file.
\<close>

theorem split_failures_write_nothing:
  "(\<not> src_exists env \<longrightarrow>
      SplitWorker_run env w = \<lparr>split_events = [FinishedError SourceMissing], split_files = []\<rparr>)
   \<and> (src_exists env \<and> \<not> makedirs_raises env \<and> \<not> open_raises (src_file env)
        \<and> is_encrypted (src_file env) \<and> decrypt_raises (src_file env) \<longrightarrow>
      SplitWorker_run env w = \<lparr>split_events = [FinishedError EncryptedSource], split_files = []\<rparr>)
   \<and> (src_exists env \<and> \<not> makedirs_raises env \<and> \<not> open_raises (src_file env)
        \<and> \<not> decrypt_raises (src_file env) \<and> pages_raise (src_file env) \<longrightarrow>
      SplitWorker_run env w
        = \<lparr>split_events = [FinishedError (Traceback OSError)], split_files = []\<rparr>)
   \<and> (src_exists env \<and> \<not> makedirs_raises env \<and> \<not> open_raises (src_file env)
        \<and> \<not> (is_encrypted (src_file env) \<and> decrypt_raises (src_file env))
        \<and> \<not> pages_raise (src_file env)
        \<and> mode w \<noteq> MODE_EACH \<and> mode w \<noteq> MODE_CHUNK
        \<and> parse_ranges (max_str_digits env) (ranges_text w)
              (int (length (pages (src_file env)))) = [] \<longrightarrow>
      SplitWorker_run env w = \<lparr>split_events = [FinishedError BadRanges], split_files = []\<rparr>)"
  by (simp add: SplitWorker_run_def failed_split_def Let_def)


text \<open>
  The failures on the sample source of 3 pages: the file is missing; the document is
  locked; the document stays unreadable though \<^verbatim>\<open>decrypt\<close> returns; the ranges text
  is \<^verbatim>\<open>abc\<close>; the ranges text is \<^verbatim>\<open>1\<close>FS\<^verbatim>\<open>-3\<close>, whose start \<^verbatim>\<open>int\<close> refuses.
\<close>

theorem split_failures_write_nothing_witness:
  "SplitWorker_run ((sample_split_env 3)\<lparr>src_exists := False\<rparr>)
      (SplitWorker_init ''in.pdf'' ''out'' ''part'' MODE_EACH 1 [] 3 1)
     = \<lparr>split_events = [FinishedError SourceMissing], split_files = []\<rparr>
   \<and> SplitWorker_run ((sample_split_env 3)\<lparr>src_file := locked_pdf\<rparr>)
      (SplitWorker_init ''in.pdf'' ''out'' ''part'' MODE_EACH 1 [] 3 1)
     = \<lparr>split_events = [FinishedError EncryptedSource], split_files = []\<rparr>
   \<and> SplitWorker_run
      ((sample_split_env 3)\<lparr>src_file := locked_pdf\<lparr>decrypt_raises := False\<rparr>\<rparr>)
      (SplitWorker_init ''in.pdf'' ''out'' ''part'' MODE_EACH 1 [] 3 1)
     = \<lparr>split_events = [FinishedError (Traceback OSError)], split_files = []\<rparr>
   \<and> SplitWorker_run (sample_split_env 3)
      (SplitWorker_init ''in.pdf'' ''out'' ''part'' MODE_RANGES 1 ''abc'' 3 1)
     = \<lparr>split_events = [FinishedError BadRanges], split_files = []\<rparr>
   \<and> SplitWorker_run (sample_split_env 3)
      (SplitWorker_init ''in.pdf'' ''out'' ''part'' MODE_RANGES 1
         [CHR ''1'', CHR 0x1C, CHR ''-'', CHR ''3''] 3 1)
     = \<lparr>split_events = [FinishedError BadRanges], split_files = []\<rparr>"
  using
    split_failures_write_nothing [of "(sample_split_env 3)\<lparr>src_exists := False\<rparr>"
      "SplitWorker_init ''in.pdf'' ''out'' ''part'' MODE_EACH 1 [] 3 1"]
    split_failures_write_nothing [of "(sample_split_env 3)\<lparr>src_file := locked_pdf\<rparr>"
      "SplitWorker_init ''in.pdf'' ''out'' ''part'' MODE_EACH 1 [] 3 1"]
    split_failures_write_nothing [of
      "(sample_split_env 3)\<lparr>src_file := locked_pdf\<lparr>decrypt_raises := False\<rparr>\<rparr>"
      "SplitWorker_init ''in.pdf'' ''out'' ''part'' MODE_EACH 1 [] 3 1"]
    split_failures_write_nothing [of "sample_split_env 3"
      "SplitWorker_init ''in.pdf'' ''out'' ''part'' MODE_RANGES 1 ''abc'' 3 1"]
    split_failures_write_nothing [of "sample_split_env 3"
      "SplitWorker_init ''in.pdf'' ''out'' ''part'' MODE_RANGES 1
         [CHR ''1'', CHR 0x1C, CHR ''-'', CHR ''3''] 3 1"]
  by (simp add: sample_defs parse_eval_defs)

section \<open>Properties of the page rotation\<close>

lemma quarter_four:
  fixes r k :: int
  shows "((((r + 90 * k) mod 360 + 90 * k) mod 360 + 90 * k) mod 360 + 90 * k) mod 360
    = r mod 360"
proof -
  have "((((r + 90 * k) mod 360 + 90 * k) mod 360 + 90 * k) mod 360 + 90 * k) mod 360
      = (r + 90 * k + 90 * k + 90 * k + 90 * k) mod 360"
    by (simp only: mod_add_left_eq)
  also have "r + 90 * k + 90 * k + 90 * k + 90 * k = r + 360 * k" by simp
  also have "(r + 360 * k) mod 360 = r mod 360" by simp
  finally show ?thesis .
qed

lemma quarter_back:
  fixes r k :: int
  shows "((r + - 90 * k) mod 360 + 90 * k) mod 360 = r mod 360"
proof -
  have "((r + - 90 * k) mod 360 + 90 * k) mod 360 = (r + - 90 * k + 90 * k) mod 360"
    by (simp only: mod_add_left_eq)
  also have "r + - 90 * k + 90 * k = r" by simp
  finally show ?thesis .
qed

lemma rotate_page_inplace_quarter:
  assumes "deg = 90 \<or> deg = - 90"
  shows "rotate_page_inplace pg deg = pg\<lparr>rotation := (rotation pg + deg) mod 360\<rparr>"
  using assms
  by (auto simp: rotate_page_inplace_def page_rotate_def page_rotate_clockwise_def
      page_rotate_counter_clockwise_def)

lemma rotate_rows:
  assumes "\<forall>r\<in>set rows. r < length (edit_pages st)" and "deg = 90 \<or> deg = - 90"
  shows "\<exists>st'. for_each (rotate_row deg) rows st = (st', None)
           \<and> edit_pages st' = edit_pages st
           \<and> (\<forall>a. rotation (heap st' a)
                 = (if count_list (map ((!) (edit_pages st)) rows) a = 0
                    then rotation (heap st a)
                    else (rotation (heap st a)
                          + deg * int (count_list (map ((!) (edit_pages st)) rows) a)) mod 360))"
  using assms(1)
proof (induction rows arbitrary: st)
  case Nil
  then show ?case by simp
next
  case (Cons r rows)
  define st1 where
    "st1 = st\<lparr>heap := (heap st)(edit_pages st ! r
                  := rotate_page_inplace (heap st (edit_pages st ! r)) deg)\<rparr>"
  define c where "c = count_list (map ((!) (edit_pages st)) rows)"
  have step: "rotate_row deg r st = (st1, None)"
    using Cons.prems by (simp add: rotate_row_def st1_def Let_def)
  have ep: "edit_pages st1 = edit_pages st" by (simp add: st1_def)
  from Cons.prems have "\<forall>r\<in>set rows. r < length (edit_pages st1)" by (simp add: ep)
  from Cons.IH [OF this] obtain st' where
    run: "for_each (rotate_row deg) rows st1 = (st', None)"
    and ep': "edit_pages st' = edit_pages st1"
    and rot: "\<forall>a. rotation (heap st' a)
                 = (if c a = 0 then rotation (heap st1 a)
                    else (rotation (heap st1 a) + deg * int (c a)) mod 360)"
    unfolding c_def ep by blast
  have r1: "rotation (heap st1 a)
      = (if a = edit_pages st ! r then (rotation (heap st a) + deg) mod 360
         else rotation (heap st a))" for a
    by (simp add: st1_def rotate_page_inplace_quarter [OF assms(2)])
  have "rotation (heap st' a)
      = (if count_list (map ((!) (edit_pages st)) (r # rows)) a = 0 then rotation (heap st a)
         else (rotation (heap st a)
               + deg * int (count_list (map ((!) (edit_pages st)) (r # rows)) a)) mod 360)" for a
  proof (cases "a = edit_pages st ! r")
    case True
    have "((rotation (heap st a) + deg) mod 360 + deg * int (c a)) mod 360
        = (rotation (heap st a) + deg + deg * int (c a)) mod 360"
      by (simp only: mod_add_left_eq)
    also have "rotation (heap st a) + deg + deg * int (c a)
        = rotation (heap st a) + deg * (1 + int (c a))"
      by (simp add: algebra_simps)
    finally have "((rotation (heap st a) + deg) mod 360 + deg * int (c a)) mod 360
        = (rotation (heap st a) + deg * (1 + int (c a))) mod 360" .
    then show ?thesis
      using True rot by (simp add: r1 c_def [symmetric])
  next
    case False
    then show ?thesis using rot by (simp add: r1 c_def [symmetric])
  qed
  then show ?case
    using step run ep ep' by simp
qed

lemma on_edit_rotate_effect:
  assumes "\<forall>r\<in>set selected. r < length (edit_pages st)" and "deg = 90 \<or> deg = - 90"
  shows "\<exists>st'. on_edit_rotate st selected deg = (st', None)
           \<and> edit_pages st' = edit_pages st
           \<and> (\<forall>a. rotation (heap st' a)
                 = (if count_list (map ((!) (edit_pages st))
                                     (sorted_list_of_set (set selected))) a = 0
                    then rotation (heap st a)
                    else (rotation (heap st a)
                          + deg * int (count_list (map ((!) (edit_pages st))
                                     (sorted_list_of_set (set selected))) a)) mod 360))"
proof (cases "edit_pages st = [] \<or> sorted_list_of_set (set selected) = []")
  case True
  then have "sorted_list_of_set (set selected) = []"
    using assms(1) by (cases selected) auto
  then show ?thesis
    by (simp add: on_edit_rotate_def Let_def)
next
  case False
  have "\<forall>r\<in>set (sorted_list_of_set (set selected)). r < length (edit_pages st)"
    using assms(1) by simp
  from rotate_rows [OF this assms(2)] False show ?thesis
    by (simp add: on_edit_rotate_def Let_def)
qed

text \<open>
  Claim C8. Rotation is additive modulo 360. When the button for +90 degrees is pressed
  four times on the same selection, every page has its original rotation again, modulo
  360, and exactly its original value where that value was normalized (in \<open>[0, 360)\<close>,
  as the spec has it for every page); the same holds for -90 followed by +90. This is so
  for every selection of valid rows, also when two selected rows hold the same page
  object, and the list of pages is not changed. For a single page the four calls of
  \<^verbatim>\<open>rotate_page_inplace\<close> with 90, and the two calls with -90 and 90, give the
  original rotation modulo 360, with the old and with the new library.
\<close>

theorem rotation_round_trip:
  assumes "\<forall>r\<in>set selected. r < length (edit_pages st)"
  shows "(\<exists>s1 s2 s3 s4.
            on_edit_rotate st selected 90 = (s1, None)
          \<and> on_edit_rotate s1 selected 90 = (s2, None)
          \<and> on_edit_rotate s2 selected 90 = (s3, None)
          \<and> on_edit_rotate s3 selected 90 = (s4, None)
          \<and> edit_pages s4 = edit_pages st
          \<and> (\<forall>a. rotation (heap s4 a) mod 360 = rotation (heap st a) mod 360)
          \<and> (\<forall>a. 0 \<le> rotation (heap st a) \<and> rotation (heap st a) < 360
                \<longrightarrow> rotation (heap s4 a) = rotation (heap st a)))
       \<and> (\<exists>s1 s2.
            on_edit_rotate st selected (- 90) = (s1, None)
          \<and> on_edit_rotate s1 selected 90 = (s2, None)
          \<and> edit_pages s2 = edit_pages st
          \<and> (\<forall>a. rotation (heap s2 a) mod 360 = rotation (heap st a) mod 360)
          \<and> (\<forall>a. 0 \<le> rotation (heap st a) \<and> rotation (heap st a) < 360
                \<longrightarrow> rotation (heap s2 a) = rotation (heap st a)))
       \<and> rotation (rotate_page_inplace (rotate_page_inplace (rotate_page_inplace
            (rotate_page_inplace pg 90) 90) 90) 90) = rotation pg mod 360
       \<and> rotation (rotate_page_inplace (rotate_page_inplace pg (- 90)) 90) = rotation pg mod 360"
proof (intro conjI)
  define n where
    "n = count_list (map ((!) (edit_pages st)) (sorted_list_of_set (set selected)))"
  define c where "c = (\<lambda>a. int (n a))"
  have eff: "\<exists>s'. on_edit_rotate s selected deg = (s', None)
           \<and> edit_pages s' = edit_pages st
           \<and> (\<forall>a. rotation (heap s' a)
                 = (if c a = 0 then rotation (heap s a)
                    else (rotation (heap s a) + deg * c a) mod 360))"
    if "edit_pages s = edit_pages st" "deg = 90 \<or> deg = - 90" for s deg
  proof -
    from that(1) assms have "\<forall>r\<in>set selected. r < length (edit_pages s)" by simp
    from on_edit_rotate_effect [OF this that(2), unfolded that(1), folded n_def]
    show ?thesis
      by (auto simp: c_def)
  qed
  obtain s1 where s1: "on_edit_rotate st selected 90 = (s1, None)" "edit_pages s1 = edit_pages st"
    "\<And>a. rotation (heap s1 a)
        = (if c a = 0 then rotation (heap st a) else (rotation (heap st a) + 90 * c a) mod 360)"
    using eff [of st 90] by auto
  obtain s2 where s2: "on_edit_rotate s1 selected 90 = (s2, None)" "edit_pages s2 = edit_pages st"
    "\<And>a. rotation (heap s2 a)
        = (if c a = 0 then rotation (heap s1 a) else (rotation (heap s1 a) + 90 * c a) mod 360)"
    using eff [of s1 90] s1(2) by auto
  obtain s3 where s3: "on_edit_rotate s2 selected 90 = (s3, None)" "edit_pages s3 = edit_pages st"
    "\<And>a. rotation (heap s3 a)
        = (if c a = 0 then rotation (heap s2 a) else (rotation (heap s2 a) + 90 * c a) mod 360)"
    using eff [of s2 90] s2(2) by auto
  obtain s4 where s4: "on_edit_rotate s3 selected 90 = (s4, None)" "edit_pages s4 = edit_pages st"
    "\<And>a. rotation (heap s4 a)
        = (if c a = 0 then rotation (heap s3 a) else (rotation (heap s3 a) + 90 * c a) mod 360)"
    using eff [of s3 90] s3(2) by auto
  have four: "rotation (heap s4 a)
      = (if c a = 0 then rotation (heap st a) else rotation (heap st a) mod 360)" for a
  proof (cases "c a = 0")
    case True
    then show ?thesis by (simp add: s1(3) s2(3) s3(3) s4(3))
  next
    case False
    have "((((rotation (heap st a) + 90 * c a) mod 360 + 90 * c a) mod 360 + 90 * c a) mod 360
            + 90 * c a) mod 360 = rotation (heap st a) mod 360"
      by (rule quarter_four)
    with False show ?thesis by (simp add: s1(3) s2(3) s3(3) s4(3))
  qed
  show "\<exists>s1 s2 s3 s4.
            on_edit_rotate st selected 90 = (s1, None)
          \<and> on_edit_rotate s1 selected 90 = (s2, None)
          \<and> on_edit_rotate s2 selected 90 = (s3, None)
          \<and> on_edit_rotate s3 selected 90 = (s4, None)
          \<and> edit_pages s4 = edit_pages st
          \<and> (\<forall>a. rotation (heap s4 a) mod 360 = rotation (heap st a) mod 360)
          \<and> (\<forall>a. 0 \<le> rotation (heap st a) \<and> rotation (heap st a) < 360
                \<longrightarrow> rotation (heap s4 a) = rotation (heap st a))"
    using s1(1) s2(1) s3(1) s4(1) s4(2) four by auto
  obtain t1 where t1: "on_edit_rotate st selected (- 90) = (t1, None)"
    "edit_pages t1 = edit_pages st"
    "\<And>a. rotation (heap t1 a)
        = (if c a = 0 then rotation (heap st a) else (rotation (heap st a) + - 90 * c a) mod 360)"
    using eff [of st "- 90"] by auto
  obtain t2 where t2: "on_edit_rotate t1 selected 90 = (t2, None)" "edit_pages t2 = edit_pages st"
    "\<And>a. rotation (heap t2 a)
        = (if c a = 0 then rotation (heap t1 a) else (rotation (heap t1 a) + 90 * c a) mod 360)"
    using eff [of t1 90] t1(2) by auto
  have two: "rotation (heap t2 a)
      = (if c a = 0 then rotation (heap st a) else rotation (heap st a) mod 360)" for a
  proof (cases "c a = 0")
    case True
    then show ?thesis by (simp add: t1(3) t2(3))
  next
    case False
    have "((rotation (heap st a) + - 90 * c a) mod 360 + 90 * c a) mod 360
        = rotation (heap st a) mod 360"
      by (rule quarter_back)
    with False show ?thesis by (simp add: t1(3) t2(3))
  qed
  show "\<exists>s1 s2.
            on_edit_rotate st selected (- 90) = (s1, None)
          \<and> on_edit_rotate s1 selected 90 = (s2, None)
          \<and> edit_pages s2 = edit_pages st
          \<and> (\<forall>a. rotation (heap s2 a) mod 360 = rotation (heap st a) mod 360)
          \<and> (\<forall>a. 0 \<le> rotation (heap st a) \<and> rotation (heap st a) < 360
                \<longrightarrow> rotation (heap s2 a) = rotation (heap st a))"
    using t1(1) t2(1) t2(2) two by auto
  show "rotation (rotate_page_inplace (rotate_page_inplace (rotate_page_inplace
            (rotate_page_inplace pg 90) 90) 90) 90) = rotation pg mod 360"
    by (simp add: rotate_page_inplace_quarter mod_add_left_eq)
  show "rotation (rotate_page_inplace (rotate_page_inplace pg (- 90)) 90) = rotation pg mod 360"
    by (simp add: rotate_page_inplace_quarter mod_add_left_eq)
qed

text \<open>
  A run of it on the sample state, the rows 0 and 2 selected, which are one object.
\<close>

theorem rotation_round_trip_witness:
  "(\<exists>s1 s2 s3 s4.
            on_edit_rotate sample_edit_state [0, 2] 90 = (s1, None)
          \<and> on_edit_rotate s1 [0, 2] 90 = (s2, None)
          \<and> on_edit_rotate s2 [0, 2] 90 = (s3, None)
          \<and> on_edit_rotate s3 [0, 2] 90 = (s4, None)
          \<and> edit_pages s4 = edit_pages sample_edit_state
          \<and> (\<forall>a. rotation (heap s4 a) mod 360 = rotation (heap sample_edit_state a) mod 360)
          \<and> (\<forall>a. 0 \<le> rotation (heap sample_edit_state a)
                  \<and> rotation (heap sample_edit_state a) < 360
                \<longrightarrow> rotation (heap s4 a) = rotation (heap sample_edit_state a)))
       \<and> (\<exists>s1 s2.
            on_edit_rotate sample_edit_state [0, 2] (- 90) = (s1, None)
          \<and> on_edit_rotate s1 [0, 2] 90 = (s2, None)
          \<and> edit_pages s2 = edit_pages sample_edit_state
          \<and> (\<forall>a. rotation (heap s2 a) mod 360 = rotation (heap sample_edit_state a) mod 360)
          \<and> (\<forall>a. 0 \<le> rotation (heap sample_edit_state a)
                  \<and> rotation (heap sample_edit_state a) < 360
                \<longrightarrow> rotation (heap s2 a) = rotation (heap sample_edit_state a)))
       \<and> rotation (rotate_page_inplace (rotate_page_inplace (rotate_page_inplace
            (rotate_page_inplace (heap sample_edit_state 1) 90) 90) 90) 90)
           = rotation (heap sample_edit_state 1) mod 360
       \<and> rotation (rotate_page_inplace (rotate_page_inplace (heap sample_edit_state 1) (- 90)) 90)
           = rotation (heap sample_edit_state 1) mod 360"
  by (rule rotation_round_trip) (simp add: sample_edit_state_def)

section \<open>Properties of the preview scale\<close>

lemma float_truediv_800_400: "float_truediv 800 400 = Inr (Finite 2)"
  by code_simp

lemma py_min_finite: "py_min (Finite a) (Finite b) = Finite (min a b)"
  by (auto simp: py_min_def min_def)

text \<open>
  Claim C6, as stated: in the mode FitWidth the scale is \<open>viewport_width / page_width\<close>,
  so a viewport of width 800 and a page of width 400 give the scale 2.0. The source
  computes the scale from the viewport width less 6 pixels: for the viewport width 800 it
  is the float nearest to \<open>794 / 400 = 1.985\<close>, not \<open>800 / 400\<close>.
\<close>

theorem render_scale_fit_counterexample:
  "render_scale ''fitw'' (Finite 1) 800 600 400 300
     = Inr (Finite (8939645260330435 / 4503599627370496))
   \<and> render_scale ''fitw'' (Finite 1) 800 600 400 300 \<noteq> Inr (Finite (800 / 400))"
  by code_simp

text \<open>
  Claim C6, amended: with \<open>vw = max(1, viewport_width - 6)\<close> and
  \<open>vh = max(1, viewport_height - 6)\<close>, the scale for FitWidth is the float quotient
  \<open>vw / page_width\<close> and the scale for FitPage is \<open>min(vw / page_width, vh / page_height)\<close>,
  for a page whose width and height are not zero; the \<open>min\<close> of two finite floats is
  the smaller one. So a viewport of width 806 and a page of width 400 give the scale 2.0.
\<close>

theorem render_scale_fit:
  "(pw \<noteq> 0 \<longrightarrow>
      render_scale ''fitw'' preview_scale viewport_width viewport_height pw ph
        = Inr (to_float (of_int (max 1 (viewport_width - 6)) / pw)))
   \<and> (pw \<noteq> 0 \<and> ph \<noteq> 0 \<longrightarrow>
      render_scale ''fitp'' preview_scale viewport_width viewport_height pw ph
        = Inr (py_min (to_float (of_int (max 1 (viewport_width - 6)) / pw))
                      (to_float (of_int (max 1 (viewport_height - 6)) / ph))))
   \<and> py_min (Finite a) (Finite b) = Finite (min a b)
   \<and> render_scale ''fitw'' preview_scale 806 viewport_height 400 ph = Inr (Finite 2)"
  using float_truediv_800_400
  by (simp add: render_scale_def float_truediv_def py_min_finite Let_def)

text \<open>
  A run of it: a viewport of 806 by 156 pixels and a page of 400 by 300 points give
  the scale 2 for FitWidth and the scale 1/2 for FitPage.
\<close>

theorem render_scale_fit_witness:
  "(400::rat) \<noteq> 0 \<and> (300::rat) \<noteq> 0
   \<and> render_scale ''fitw'' (Finite 1) 806 156 400 300 = Inr (Finite 2)
   \<and> render_scale ''fitp'' (Finite 1) 806 156 400 300 = Inr (Finite (1 / 2))"
proof -
  have a: "to_float (rat_of_int (max 1 (806 - 6)) / 400) = Finite 2"
    by code_simp
  have b: "to_float (rat_of_int (max 1 (156 - 6)) / 300) = Finite (1 / 2)"
    by code_simp
  show ?thesis
    using render_scale_fit [of 400 "Finite 1" 806 156 300 0 0]
    by (simp only: a b py_min_finite) simp
qed

subsection \<open>The names of the output files\<close>

lemma for_each_invariant:
  assumes "P st" and "\<And>x s. P s \<Longrightarrow> P (fst (step x s))"
  shows "P (fst (for_each step xs st))"
  using assms(1)
proof (induction xs arbitrary: st)
  case Nil
  then show ?case by simp
next
  case (Cons x xs)
  obtain s' r where sr: "step x st = (s', r)" by (cases "step x st")
  have "P s'" using assms(2) [OF Cons.prems, of x] sr by simp
  then show ?case
    using Cons.IH [of s'] sr by (cases r) simp_all
qed

lemma digit_char_props:
  assumes "d < 10"
  shows "is_digit (digit_char d)" and "digit_val (digit_char d) = int d"
  using assms by (simp_all add: is_digit_def digit_val_def digit_char_def)

lemma digits_value_snoc: "digits_value (ds @ [c]) = 10 * digits_value ds + digit_val c"
  by (simp add: digits_value_def)

lemma str_nat_digits: "list_all is_digit (str_nat n) \<and> digits_value (str_nat n) = int n"
proof (induction n rule: str_nat.induct)
  case (1 n)
  show ?case
  proof (cases "n < 10")
    case True
    then have "str_nat n = [digit_char n]" by (subst str_nat.simps) simp
    with True show ?thesis
      by (simp add: digit_char_props digits_value_def)
  next
    case False
    then have e: "str_nat n = str_nat (n div 10) @ [digit_char (n mod 10)]"
      by (subst str_nat.simps) simp
    have "n mod 10 < 10" by simp
    moreover have "10 * int (n div 10) + int (n mod 10) = int n"
      by (simp add: zdiv_int zmod_int)
    ultimately show ?thesis
      using "1.IH" False unfolding e by (simp add: digit_char_props digits_value_snoc)
  qed
qed

lemma str_nat_nonempty: "str_nat n \<noteq> []"
  by (subst str_nat.simps) simp

lemma not_sign_digit: "is_digit c \<Longrightarrow> c \<noteq> CHR ''+'' \<and> c \<noteq> CHR ''-''"
  by (auto simp: is_digit_def)

lemma zfill_nonneg:
  assumes "0 \<le> i"
  shows "zfill p (str_int i)
    = replicate (nat p - length (str_nat (nat i))) (CHR ''0'') @ str_nat (nat i)"
proof -
  obtain c cs where s: "str_nat (nat i) = c # cs"
    using str_nat_nonempty [of "nat i"] by (cases "str_nat (nat i)") auto
  have "is_digit c" using str_nat_digits [of "nat i"] s by simp
  then have c: "c \<noteq> CHR ''+''" "c \<noteq> CHR ''-''" using not_sign_digit by auto
  have n: "nat (p - int (length (c # cs))) = nat p - length (c # cs)" by arith
  show ?thesis
  proof (cases "p \<le> int (length (c # cs))")
    case True
    then have "nat p - length (c # cs) = 0" by arith
    with True assms show ?thesis
      by (simp only: zfill_def str_int_def s) simp
  next
    case False
    with assms c show ?thesis
      by (simp only: zfill_def str_int_def s Let_def n) simp
  qed
qed

lemma write_range_names:
  assumes "idx st = start_index w + int (length (written st))"
    and "map file_path (written st)
      = map (\<lambda>j. path_join env (out_dir w) (output_name w (start_index w + int j)))
          [0..<length (written st)]"
  shows "idx (fst (write_range env w s1 e1 st))
           = start_index w + int (length (written (fst (write_range env w s1 e1 st))))
       \<and> map file_path (written (fst (write_range env w s1 e1 st)))
           = map (\<lambda>j. path_join env (out_dir w) (output_name w (start_index w + int j)))
               [0..<length (written (fst (write_range env w s1 e1 st)))]"
  using assms
  by (auto simp: write_range_def Let_def split: sum.splits)

lemma write_then_progress_names:
  assumes "idx st = start_index w + int (length (written st))"
    and "map file_path (written st)
      = map (\<lambda>j. path_join env (out_dir w) (output_name w (start_index w + int j)))
          [0..<length (written st)]"
  shows "idx (fst (write_then_progress env w s1 e1 a b st))
           = start_index w + int (length (written (fst (write_then_progress env w s1 e1 a b st))))
       \<and> map file_path (written (fst (write_then_progress env w s1 e1 a b st)))
           = map (\<lambda>j. path_join env (out_dir w) (output_name w (start_index w + int j)))
               [0..<length (written (fst (write_then_progress env w s1 e1 a b st)))]"
proof -
  obtain s' r where wr: "write_range env w s1 e1 st = (s', r)"
    by (cases "write_range env w s1 e1 st")
  have inv: "idx s' = start_index w + int (length (written s'))
       \<and> map file_path (written s')
           = map (\<lambda>j. path_join env (out_dir w) (output_name w (start_index w + int j)))
               [0..<length (written s')]"
    using write_range_names [OF assms, of s1 e1] wr by simp
  show ?thesis
  proof (cases r)
    case None
    then show ?thesis
      using inv wr by (auto simp: write_then_progress_def emit_progress_def split: sum.splits)
  next
    case (Some err)
    then show ?thesis
      using inv wr by (simp add: write_then_progress_def)
  qed
qed

lemma split_loop_names:
  fixes env :: "'p split_env"
  assumes "\<And>x s. step x s = write_then_progress env w (s1 x) (e1 x) (a x) (b x) s"
  shows "map file_path (written (fst (for_each step xs
            \<lparr>idx = start_index w, written = [], s_events = []\<rparr>)))
       = map (\<lambda>j. path_join env (out_dir w) (output_name w (start_index w + int j)))
           [0..<length (written (fst (for_each step xs
              \<lparr>idx = start_index w, written = [], s_events = []\<rparr>)))]"
proof -
  let ?P = "\<lambda>st :: 'p split_state. idx st = start_index w + int (length (written st))
       \<and> map file_path (written st)
           = map (\<lambda>j. path_join env (out_dir w) (output_name w (start_index w + int j)))
               [0..<length (written st)]"
  have "?P (fst (for_each step xs \<lparr>idx = start_index w, written = [], s_events = []\<rparr>))"
  proof (rule for_each_invariant [where P = ?P])
    show "?P \<lparr>idx = start_index w, written = [], s_events = []\<rparr>" by simp
  next
    fix x s
    assume "?P s"
    then show "?P (fst (step x s))"
      unfolding assms using write_then_progress_names by blast
  qed
  then show ?thesis by simp
qed

lemma split_files_finish: "split_files (finish_split w r) = written (fst r)"
  by (cases r) (auto simp: finish_split_def split: option.splits)

lemma split_run_names:
  "map file_path (split_files (SplitWorker_run env w))
     = map (\<lambda>j. path_join env (out_dir w) (output_name w (start_index w + int j)))
         [0..<length (split_files (SplitWorker_run env w))]"
proof -
  have each: "\<And>tot x s. each_step env w tot x s = write_then_progress env w x x x tot s"
    by (simp add: each_step_def)
  have chunk: "\<And>tot x s. chunk_step env w tot x s
      = write_then_progress env w (x * chunk_size w + 1) (min tot ((x + 1) * chunk_size w))
          (min tot ((x + 1) * chunk_size w)) tot s"
    by (simp add: chunk_step_def Let_def)
  have rng: "\<And>n x s. range_step env w n x s
      = write_then_progress env w (fst (snd x)) (snd (snd x)) (fst x) n s"
    by (simp add: range_step_def split: prod.splits)
  show ?thesis
    unfolding SplitWorker_run_def Let_def
    by (auto simp: failed_split_def split_files_finish
        split_loop_names [OF each] split_loop_names [OF chunk] split_loop_names [OF rng]
        split: sum.splits)
qed

subsection \<open>The spans of the output files\<close>

lemma py_index_valid:
  assumes "0 \<le> i" "i < int (length xs)"
  shows "py_index xs i = Inr (xs ! nat i)"
  using assms by (simp add: py_index_def Let_def)

lemma get_pages_run:
  assumes "0 \<le> a" "nat a + n \<le> length src"
  shows "get_pages src (map (\<lambda>k. a + int k) [0..<n]) = Inr (take n (drop (nat a) src))"
  using assms
proof (induction n arbitrary: a)
  case 0
  then show ?case by simp
next
  case (Suc n)
  have l: "[0..<Suc n] = 0 # map Suc [0..<n]"
    by (simp add: upt_conv_Cons map_Suc_upt del: upt_Suc)
  have m: "map (\<lambda>k. a + int k) [0..<Suc n] = a # map (\<lambda>k. (a + 1) + int k) [0..<n]"
    unfolding l by (simp add: comp_def add.assoc del: upt_Suc)
  have i: "py_index src a = Inr (src ! nat a)"
    using Suc.prems by (intro py_index_valid) simp_all
  have r: "get_pages src (map (\<lambda>k. (a + 1) + int k) [0..<n])
      = Inr (take n (drop (nat (a + 1)) src))"
    using Suc.prems by (intro Suc.IH) simp_all
  have "nat a < length src" using Suc.prems by simp
  then have d: "drop (nat a) src = src ! nat a # drop (Suc (nat a)) src"
    by (simp add: Cons_nth_drop_Suc)
  have s: "nat (a + 1) = Suc (nat a)" using Suc.prems by simp
  show ?case
    unfolding m by (simp add: i r d s del: upt_Suc)
qed

lemma get_pages_span:
  assumes "1 \<le> s1" "s1 \<le> e1" "e1 \<le> int (length src)"
  shows "get_pages src (py_range (s1 - 1) e1)
    = Inr (take (nat (e1 - s1 + 1)) (drop (nat (s1 - 1)) src))"
proof -
  define n where "n = nat (e1 - s1 + 1)"
  have n: "nat (e1 - (s1 - 1)) = n" by (simp add: n_def)
  have "nat (s1 - 1) + n \<le> length src" using assms by (simp add: n_def)
  with assms(1) have "get_pages src (map (\<lambda>k. (s1 - 1) + int k) [0..<n])
      = Inr (take n (drop (nat (s1 - 1)) src))"
    by (intro get_pages_run) simp_all
  then show ?thesis
    unfolding py_range_def n by (simp only: n_def)
qed

lemma step_writes:
  fixes env :: "'p split_env"
  assumes "\<forall>p. \<not> write_fails env p"
    and "1 \<le> s1" "s1 \<le> e1" "e1 \<le> int (length (pages (src_file env)))"
    and "0 < b" "0 \<le> a" "a \<le> 2 * b"
  shows "\<exists>st'. write_then_progress env w s1 e1 a b st = (st', None)
     \<and> map (\<lambda>f. (span f, content f)) (written st')
       = map (\<lambda>f. (span f, content f)) (written st)
         @ [((s1, e1), take (nat (e1 - s1 + 1)) (drop (nat (s1 - 1)) (pages (src_file env))))]"
proof -
  obtain pc where pc: "percent a b = Inr pc"
    using percent_ok [OF assms(5-7)] by blast
  show ?thesis
    using assms(1) pc
    by (simp add: write_then_progress_def write_range_def emit_progress_def Let_def span_def
        get_pages_span [OF assms(2-4)])
qed

lemma loop_writes:
  fixes st :: "'p split_state"
  assumes "\<And>x s. x \<in> set xs \<Longrightarrow> \<exists>s'. step x s = (s', None)
      \<and> map (\<lambda>f. (span f, content f)) (written s')
        = map (\<lambda>f. (span f, content f)) (written s) @ [shape x]"
  shows "\<exists>st'. for_each step xs st = (st', None)
     \<and> map (\<lambda>f. (span f, content f)) (written st')
       = map (\<lambda>f. (span f, content f)) (written st) @ map shape xs"
  using assms
proof (induction xs arbitrary: st)
  case Nil
  then show ?case by simp
next
  case (Cons x xs)
  obtain s' where s': "step x st = (s', None)"
    "map (\<lambda>f. (span f, content f)) (written s')
        = map (\<lambda>f. (span f, content f)) (written st) @ [shape x]"
    using Cons.prems [of x st] by auto
  have "\<exists>st'. for_each step xs s' = (st', None)
     \<and> map (\<lambda>f. (span f, content f)) (written st')
       = map (\<lambda>f. (span f, content f)) (written s') @ map shape xs"
    by (rule Cons.IH) (use Cons.prems in auto)
  then show ?case using s' by auto
qed

lemma ceiling_div:
  assumes "0 < k"
  shows "\<lceil>rat_of_int a / rat_of_int k\<rceil> = (a + k - 1) div k"
proof -
  define q where "q = (a + k - 1) div k"
  define r where "r = (a + k - 1) mod k"
  have r: "0 \<le> r" "r < k" using assms by (simp_all add: r_def)
  have "q * k + r = a + k - 1" by (simp add: q_def r_def)
  then have a: "a = q * k - (k - 1 - r)" by simp
  have up: "a \<le> q * k" using a r by simp
  have lo: "(q - 1) * k < a" using a r by (simp add: algebra_simps)
  have "rat_of_int a \<le> rat_of_int (q * k)" using up by (simp only: of_int_le_iff)
  then have 1: "rat_of_int a / rat_of_int k \<le> of_int q"
    using assms by (simp add: field_simps)
  have "rat_of_int ((q - 1) * k) < rat_of_int a" using lo by (simp only: of_int_less_iff)
  then have 2: "of_int q - 1 < rat_of_int a / rat_of_int k"
    using assms by (simp add: field_simps)
  show ?thesis
    unfolding q_def [symmetric] using 1 2 by (simp add: ceiling_eq_iff)
qed

lemma chunk_bounds:
  assumes "1 \<le> k" "int c < (tot + k - 1) div k"
  shows "int c * k + 1 \<le> tot"
proof -
  have "int c + 1 \<le> (tot + k - 1) div k" using assms(2) by simp
  then have "(int c + 1) * k \<le> (tot + k - 1) div k * k"
    using assms(1) by (intro mult_right_mono) simp_all
  also have "\<dots> = (tot + k - 1) - (tot + k - 1) mod k"
    by (simp add: algebra_simps minus_mod_eq_mult_div)
  also have "\<dots> \<le> tot + k - 1"
  proof -
    have "0 < k" using assms(1) by simp
    then have "0 \<le> (tot + k - 1) mod k" by simp
    then show ?thesis by simp
  qed
  finally show ?thesis by (simp add: algebra_simps)
qed

lemma split_shapes:
  fixes env :: "'p split_env"
  assumes "src_exists env" and "\<not> makedirs_raises env" and "\<not> open_raises (src_file env)"
    and "\<not> (is_encrypted (src_file env) \<and> decrypt_raises (src_file env))"
    and "\<not> pages_raise (src_file env)" and "\<forall>p. \<not> write_fails env p"
    and "tot = int (length (pages (src_file env)))" and "1 \<le> tot" and "1 \<le> k"
  shows "map (\<lambda>f. (span f, content f))
           (split_files (SplitWorker_run env (SplitWorker_init src dir pre MODE_CHUNK k rt pd si)))
         = map (\<lambda>c. ((int c * k + 1, min tot ((int c + 1) * k)),
                      take (nat (min tot ((int c + 1) * k) - (int c * k + 1) + 1))
                        (drop (nat (int c * k + 1 - 1)) (pages (src_file env)))))
             [0..<nat \<lceil>rat_of_int tot / rat_of_int k\<rceil>]
       \<and> length (split_files
             (SplitWorker_run env (SplitWorker_init src dir pre MODE_CHUNK k rt pd si)))
         = nat \<lceil>rat_of_int tot / rat_of_int k\<rceil>
       \<and> map (\<lambda>f. (span f, content f))
           (split_files (SplitWorker_run env (SplitWorker_init src dir pre MODE_EACH cs rt pd si)))
         = map (\<lambda>p. ((int p + 1, int p + 1), [pages (src_file env) ! p])) [0..<nat tot]
       \<and> length (split_files
             (SplitWorker_run env (SplitWorker_init src dir pre MODE_EACH cs rt pd si)))
         = nat tot"
proof -
  define wc where "wc = SplitWorker_init src dir pre MODE_CHUNK k rt pd si"
  define we where "we = SplitWorker_init src dir pre MODE_EACH cs rt pd si"
  define st0 :: "'p split_state" where "st0 = \<lparr>idx = si, written = [], s_events = []\<rparr>"
  define n where "n = nat ((tot + k - 1) div k)"
  have enc: "(is_encrypted (src_file env) \<and> decrypt_raises (src_file env)) = False"
    using assms(4) by simp
  have k: "chunk_size wc = k" using assms(9) by (simp add: wc_def SplitWorker_init_def)
  have n: "nat \<lceil>rat_of_int tot / rat_of_int k\<rceil> = n"
    using assms(9) by (simp add: ceiling_div n_def)
  \<comment> \<open>the chunk loop\<close>
  have cstep: "\<exists>s'. chunk_step env wc tot x s = (s', None)
      \<and> map (\<lambda>f. (span f, content f)) (written s')
        = map (\<lambda>f. (span f, content f)) (written s)
          @ [((x * k + 1, min tot ((x + 1) * k)),
              take (nat (min tot ((x + 1) * k) - (x * k + 1) + 1))
                (drop (nat (x * k + 1 - 1)) (pages (src_file env))))]"
    if "x \<in> set (py_range 0 ((tot + k - 1) div k))" for x and s :: "'p split_state"
  proof -
    from that obtain c where c: "x = int c" "int c < (tot + k - 1) div k"
      by (auto simp: py_range_def)
    have lo: "x * k + 1 \<le> tot" using chunk_bounds [OF assms(9) c(2)] c(1) by simp
    have "x * k + 1 \<le> (x + 1) * k" using assms(9) by (simp add: algebra_simps)
    with lo have le: "x * k + 1 \<le> min tot ((x + 1) * k)" by simp
    have x0: "0 \<le> x * k" using c(1) assms(9) by simp
    have s1: "1 \<le> x * k + 1" using x0 by simp
    have e1: "min tot ((x + 1) * k) \<le> int (length (pages (src_file env)))"
      using assms(7) by simp
    have b: "0 < tot" using assms(8) by simp
    have a0: "0 \<le> min tot ((x + 1) * k)" using le x0 by linarith
    have a2: "min tot ((x + 1) * k) \<le> 2 * tot" using b by simp
    show ?thesis
      unfolding chunk_step_def Let_def k
      by (rule step_writes [OF assms(6) s1 le e1 b a0 a2])
  qed
  have cloop: "\<exists>st'. for_each (chunk_step env wc tot) (py_range 0 ((tot + k - 1) div k)) st0
        = (st', None)
     \<and> map (\<lambda>f. (span f, content f)) (written st')
       = map (\<lambda>f. (span f, content f)) (written st0)
         @ map (\<lambda>x. ((x * k + 1, min tot ((x + 1) * k)),
              take (nat (min tot ((x + 1) * k) - (x * k + 1) + 1))
                (drop (nat (x * k + 1 - 1)) (pages (src_file env)))))
             (py_range 0 ((tot + k - 1) div k))"
    by (rule loop_writes) (use cstep in blast)
  have crun: "SplitWorker_run env wc
      = finish_split wc (for_each (chunk_step env wc tot) (py_range 0 ((tot + k - 1) div k)) st0)"
    using assms(1-3,5,7,9) k
    by (simp add: SplitWorker_run_def Let_def chunk_count_def py_floordiv_def st0_def enc
        wc_def SplitWorker_init_def MODE_EACH_def MODE_CHUNK_def)
  have chunk: "map (\<lambda>f. (span f, content f)) (split_files (SplitWorker_run env wc))
         = map (\<lambda>c. ((int c * k + 1, min tot ((int c + 1) * k)),
                      take (nat (min tot ((int c + 1) * k) - (int c * k + 1) + 1))
                        (drop (nat (int c * k + 1 - 1)) (pages (src_file env)))))
             [0..<n]"
    using cloop unfolding crun
    by (auto simp: split_files_finish st0_def py_range_def n_def comp_def)
  \<comment> \<open>the loop over the pages\<close>
  have estep: "\<exists>s'. each_step env we tot x s = (s', None)
      \<and> map (\<lambda>f. (span f, content f)) (written s')
        = map (\<lambda>f. (span f, content f)) (written s)
          @ [((x, x), take (nat (x - x + 1)) (drop (nat (x - 1)) (pages (src_file env))))]"
    if "x \<in> set (py_range 1 (tot + 1))" for x and s :: "'p split_state"
  proof -
    from that have x: "1 \<le> x" "x \<le> tot" by (auto simp: py_range_def)
    have e1: "x \<le> int (length (pages (src_file env)))" using x(2) assms(7) by simp
    have b: "0 < tot" using assms(8) by simp
    have a0: "0 \<le> x" using x(1) by simp
    have a2: "x \<le> 2 * tot" using x(2) b by simp
    show ?thesis
      unfolding each_step_def
      by (rule step_writes [OF assms(6) x(1) order_refl e1 b a0 a2])
  qed
  have eloop: "\<exists>st'. for_each (each_step env we tot) (py_range 1 (tot + 1)) st0 = (st', None)
     \<and> map (\<lambda>f. (span f, content f)) (written st')
       = map (\<lambda>f. (span f, content f)) (written st0)
         @ map (\<lambda>x. ((x, x), take (nat (x - x + 1)) (drop (nat (x - 1)) (pages (src_file env)))))
             (py_range 1 (tot + 1))"
    by (rule loop_writes) (use estep in blast)
  have erun: "SplitWorker_run env we
      = finish_split we (for_each (each_step env we tot) (py_range 1 (tot + 1)) st0)"
    using assms(1-3,5,7)
    by (simp add: SplitWorker_run_def Let_def st0_def enc
        we_def SplitWorker_init_def MODE_EACH_def)
  have one: "take (Suc 0) (drop p (pages (src_file env))) = [pages (src_file env) ! p]"
    if "p < nat tot" for p
  proof -
    have "p < length (pages (src_file env))" using that assms(7) by simp
    then have "drop p (pages (src_file env))
        = pages (src_file env) ! p # drop (Suc p) (pages (src_file env))"
      by (simp add: Cons_nth_drop_Suc)
    then show ?thesis by simp
  qed
  have each: "map (\<lambda>f. (span f, content f)) (split_files (SplitWorker_run env we))
         = map (\<lambda>p. ((int p + 1, int p + 1), [pages (src_file env) ! p])) [0..<nat tot]"
    using eloop one unfolding erun
    by (auto simp: split_files_finish st0_def py_range_def comp_def algebra_simps)
  have "length (split_files (SplitWorker_run env wc)) = n"
    using arg_cong [OF chunk, of length] by simp
  moreover have "length (split_files (SplitWorker_run env we)) = nat tot"
    using arg_cong [OF each, of length] by simp
  ultimately show ?thesis
    using chunk each unfolding n wc_def we_def by simp
qed

lemma shapes_spans:
  assumes "map (\<lambda>f. (span f, content f)) fs = map g xs"
    and "\<And>x. x \<in> set xs \<Longrightarrow>
      snd (g x) = take (nat (snd (fst (g x)) - fst (fst (g x)) + 1))
                    (drop (nat (fst (fst (g x)) - 1)) src)"
  shows "map span fs = map (\<lambda>x. fst (g x)) xs
    \<and> length fs = length xs
    \<and> list_all (\<lambda>f. content f
          = take (nat (last_page f - first_page f + 1)) (drop (nat (first_page f - 1)) src)) fs"
proof (intro conjI)
  have "map fst (map (\<lambda>f. (span f, content f)) fs) = map fst (map g xs)"
    using assms(1) by simp
  then show "map span fs = map (\<lambda>x. fst (g x)) xs" by (simp add: comp_def)
  show "length fs = length xs" using arg_cong [OF assms(1), of length] by simp
  show "list_all (\<lambda>f. content f
          = take (nat (last_page f - first_page f + 1)) (drop (nat (first_page f - 1)) src)) fs"
    unfolding list_all_iff
  proof
    fix f assume "f \<in> set fs"
    then have "(span f, content f) \<in> set (map (\<lambda>f. (span f, content f)) fs)" by force
    then obtain x where x: "x \<in> set xs" "g x = (span f, content f)"
      unfolding assms(1) by auto
    from assms(2) [OF x(1)] show "content f
          = take (nat (last_page f - first_page f + 1)) (drop (nat (first_page f - 1)) src)"
      by (simp add: x(2) span_def)
  qed
qed

text \<open>
  Claim C3. Let the source exist and be readable, with \<open>tot \<ge> 1\<close> pages, and let no
  write fail. In the mode FixedChunk with a chunk size \<open>k \<ge> 1\<close> the run writes exactly
  \<open>\<lceil>tot / k\<rceil>\<close> files, and the file number \<open>c\<close> (from 0) has the span from
  \<open>c * k + 1\<close> to \<open>min tot ((c + 1) * k)\<close>. In the mode EachPage the run writes exactly
  \<open>tot\<close> files, the file of page \<open>p\<close> with the span from \<open>p\<close> to \<open>p\<close>. In both
  modes a file holds the pages of its span, in the order of the source.
\<close>

theorem split_spans:
  fixes env :: "'p split_env"
  assumes "src_exists env" and "\<not> makedirs_raises env" and "\<not> open_raises (src_file env)"
    and "\<not> (is_encrypted (src_file env) \<and> decrypt_raises (src_file env))"
    and "\<not> pages_raise (src_file env)" and "\<forall>p. \<not> write_fails env p"
    and "tot = int (length (pages (src_file env)))" and "1 \<le> tot" and "1 \<le> k"
  shows "map span
           (split_files (SplitWorker_run env (SplitWorker_init src dir pre MODE_CHUNK k rt pd si)))
         = map (\<lambda>c. (int c * k + 1, min tot ((int c + 1) * k)))
             [0..<nat \<lceil>rat_of_int tot / rat_of_int k\<rceil>]
       \<and> length (split_files
             (SplitWorker_run env (SplitWorker_init src dir pre MODE_CHUNK k rt pd si)))
         = nat \<lceil>rat_of_int tot / rat_of_int k\<rceil>
       \<and> list_all (\<lambda>f. content f
             = take (nat (last_page f - first_page f + 1))
                 (drop (nat (first_page f - 1)) (pages (src_file env))))
           (split_files (SplitWorker_run env (SplitWorker_init src dir pre MODE_CHUNK k rt pd si)))
       \<and> map span
           (split_files (SplitWorker_run env (SplitWorker_init src dir pre MODE_EACH cs rt pd si)))
         = map (\<lambda>p. (int p + 1, int p + 1)) [0..<nat tot]
       \<and> length (split_files
             (SplitWorker_run env (SplitWorker_init src dir pre MODE_EACH cs rt pd si)))
         = nat tot
       \<and> list_all (\<lambda>f. content f
             = take (nat (last_page f - first_page f + 1))
                 (drop (nat (first_page f - 1)) (pages (src_file env))))
           (split_files (SplitWorker_run env (SplitWorker_init src dir pre MODE_EACH cs rt pd si)))"
proof -
  note sh = split_shapes [OF assms, of src dir pre rt pd si cs]
  have c: "map (\<lambda>f. (span f, content f))
           (split_files (SplitWorker_run env (SplitWorker_init src dir pre MODE_CHUNK k rt pd si)))
         = map (\<lambda>c. ((int c * k + 1, min tot ((int c + 1) * k)),
                      take (nat (min tot ((int c + 1) * k) - (int c * k + 1) + 1))
                        (drop (nat (int c * k + 1 - 1)) (pages (src_file env)))))
             [0..<nat \<lceil>rat_of_int tot / rat_of_int k\<rceil>]"
    using sh by blast
  have e: "map (\<lambda>f. (span f, content f))
           (split_files (SplitWorker_run env (SplitWorker_init src dir pre MODE_EACH cs rt pd si)))
         = map (\<lambda>p. ((int p + 1, int p + 1), [pages (src_file env) ! p])) [0..<nat tot]"
    using sh by blast
  have one: "[pages (src_file env) ! p]
      = take (nat (int p + 1 - (int p + 1) + 1)) (drop (nat (int p + 1 - 1)) (pages (src_file env)))"
    if "p < nat tot" for p
  proof -
    have "p < length (pages (src_file env))" using that assms(7) by simp
    then have "drop p (pages (src_file env))
        = pages (src_file env) ! p # drop (Suc p) (pages (src_file env))"
      by (simp add: Cons_nth_drop_Suc)
    then show ?thesis by simp
  qed
  show ?thesis
    using shapes_spans [OF c, of "pages (src_file env)"]
      shapes_spans [OF e, of "pages (src_file env)"] one
    by simp
qed

text \<open>
  The two examples of the spec: 10 pages in chunks of 4 give three files with the spans
  1-4, 5-8 and 9-10; 5 pages, one file a page, give five files with the spans \<open>p\<close>-\<open>p\<close>.
\<close>

theorem split_spans_witness:
  "map span (split_files (SplitWorker_run (sample_split_env 10)
       (SplitWorker_init ''in.pdf'' ''out'' ''part'' MODE_CHUNK 4 [] 3 1)))
     = [(1, 4), (5, 8), (9, 10)]
   \<and> length (split_files (SplitWorker_run (sample_split_env 10)
       (SplitWorker_init ''in.pdf'' ''out'' ''part'' MODE_CHUNK 4 [] 3 1))) = 3
   \<and> map span (split_files (SplitWorker_run (sample_split_env 5)
       (SplitWorker_init ''in.pdf'' ''out'' ''part'' MODE_EACH 1 [] 3 1)))
     = [(1, 1), (2, 2), (3, 3), (4, 4), (5, 5)]
   \<and> length (split_files (SplitWorker_run (sample_split_env 5)
       (SplitWorker_init ''in.pdf'' ''out'' ''part'' MODE_EACH 1 [] 3 1))) = 5"
proof -
  have "\<lceil>(5::rat) / 2\<rceil> = 3" by (simp add: ceiling_eq_iff)
  then have three: "nat \<lceil>(5::rat) / 2\<rceil> = 3" by simp
  have l3: "[0..<3] = [0, 1, 2]" by (simp add: upt_rec)
  have l5: "[0..<5] = [0, 1, 2, 3, 4]" by (simp add: upt_rec)
  show ?thesis
    using
      split_spans [of "sample_split_env 10" 10 4 "''in.pdf''" "''out''" "''part''" "[]" 3 1 1]
      split_spans [of "sample_split_env 5" 5 1 "''in.pdf''" "''out''" "''part''" "[]" 3 1 1]
    by (simp add: sample_split_env_def sample_pdf_def three l3 l5)
qed

text \<open>
  Claim C9. In every mode, and also in a run that an exception ends early, the file
  number \<open>j\<close> (from 0) that a split run writes is named, inside the output directory,
  \<^verbatim>\<open>{prefix}_{index}.pdf\<close> where \<open>index\<close> is \<open>start_index + j\<close> as a decimal numeral
  filled with zeros to \<open>pad\<close> characters: the index starts at \<open>start_index\<close> and grows
  by 1 with every file. The constructor puts \<^verbatim>\<open>split\<close> for an empty prefix, and stores
  \<open>max 1 pad\<close>, \<open>start_index\<close> and the output directory. For an index that is not
  negative the filled numeral is the decimal digits of the index with zeros in front, up
  to \<open>pad\<close> digits (a longer numeral is kept whole), and those digits denote the index.
\<close>

theorem split_output_names:
  fixes env :: "'p split_env"
  shows "map file_path (split_files (SplitWorker_run env w))
       = map (\<lambda>j. path_join env (out_dir w)
                (filename_prefix w @ ''_'' @ zfill (pad w) (str_int (start_index w + int j))
                 @ ''.pdf''))
           [0..<length (split_files (SplitWorker_run env w))]
     \<and> filename_prefix (SplitWorker_init src dir pre md cs rt pd si)
       = (if pre = [] then ''split'' else pre)
     \<and> pad (SplitWorker_init src dir pre md cs rt pd si) = max 1 pd
     \<and> start_index (SplitWorker_init src dir pre md cs rt pd si) = si
     \<and> out_dir (SplitWorker_init src dir pre md cs rt pd si) = dir
     \<and> (0 \<le> i \<longrightarrow>
          zfill p (str_int i)
            = replicate (nat p - length (str_nat (nat i))) (CHR ''0'') @ str_nat (nat i))
     \<and> list_all is_digit (str_nat n)
     \<and> digits_value (str_nat n) = int n"
  using split_run_names [of env w] zfill_nonneg [of i p] str_nat_digits [of n]
  by (simp add: output_name_def SplitWorker_init_def)

lemma digit_chars:
  "digit_char 0 = CHR ''0''" "digit_char 1 = CHR ''1''" "digit_char 2 = CHR ''2''"
  "digit_char 3 = CHR ''3''" "digit_char 4 = CHR ''4''" "digit_char 5 = CHR ''5''"
  "digit_char 6 = CHR ''6''" "digit_char 7 = CHR ''7''" "digit_char 8 = CHR ''8''"
  "digit_char 9 = CHR ''9''" "digit_char (Suc 0) = CHR ''1''"
  by code_simp+

lemma percent_split: "percent 4 10 = Inr 40" "percent 8 10 = Inr 80" "percent 10 10 = Inr 100"
  by code_simp+

lemmas split_eval_defs =
  SplitWorker_run_def SplitWorker_init_def MODE_EACH_def MODE_CHUNK_def MODE_RANGES_def
  chunk_count_def py_floordiv_def chunk_step_def each_step_def write_then_progress_def
  write_range_def emit_progress_def finish_split_def py_range_def py_index_def output_name_def
  sample_split_env_def sample_pdf_def zfill_def str_int_def str_nat.simps digit_chars Let_def
  upt_rec numeral_2_eq_2

text \<open>
  A run of it: 10 pages in chunks of 4, an empty prefix, 3 digits, starting at 9.
\<close>

theorem split_output_names_witness:
  "map file_path (split_files (SplitWorker_run (sample_split_env 10)
       (SplitWorker_init ''in.pdf'' ''out'' [] MODE_CHUNK 4 [] 3 9)))
     = [''out/split_009.pdf'', ''out/split_010.pdf'', ''out/split_011.pdf'']
   \<and> (0::int) \<le> 10
   \<and> zfill 3 (str_int 10) = ''010''"
proof -
  have len: "length (split_files (SplitWorker_run (sample_split_env 10)
       (SplitWorker_init ''in.pdf'' ''out'' [] MODE_CHUNK 4 [] 3 9))) = 3"
    by (simp add: split_eval_defs percent_split)
  have names: "map (\<lambda>j. path_join (sample_split_env 10)
                (out_dir (SplitWorker_init ''in.pdf'' ''out'' [] MODE_CHUNK 4 [] 3 9))
                (filename_prefix (SplitWorker_init ''in.pdf'' ''out'' [] MODE_CHUNK 4 [] 3 9)
                 @ ''_''
                 @ zfill (pad (SplitWorker_init ''in.pdf'' ''out'' [] MODE_CHUNK 4 [] 3 9))
                     (str_int (start_index
                        (SplitWorker_init ''in.pdf'' ''out'' [] MODE_CHUNK 4 [] 3 9) + int j))
                 @ ''.pdf''))
           [0..<3]
     = [''out/split_009.pdf'', ''out/split_010.pdf'', ''out/split_011.pdf'']"
    by (simp add: split_eval_defs)
  have z: "replicate (nat 3 - length (str_nat (nat 10))) (CHR ''0'') @ str_nat (nat 10) = ''010''"
    by (simp add: str_nat.simps digit_chars)
  show ?thesis
    using split_output_names [of "sample_split_env 10"
        "SplitWorker_init ''in.pdf'' ''out'' [] MODE_CHUNK 4 [] 3 9" _ _ _ _ _ _ _ _ 10 3]
    unfolding len names z by simp
qed

section \<open>Properties of the merge worker\<close>

lemma emit_simps [simp]:
  "writer (emit ev st) = writer st"
  "n_done (emit ev st) = n_done st"
  "emitted (emit ev st) = emitted st @ [ev]"
  by (simp_all add: emit_def)

lemma bump_progress_ok:
  fixes st :: "'p merge_state"
  assumes "0 < tot" "0 \<le> n_done st" "n_done st + 1 \<le> 2 * tot"
  shows "\<exists>s' pc. bump_progress tot st = (s', None) \<and> writer s' = writer st
    \<and> n_done s' = n_done st + 1 \<and> emitted s' = emitted st @ [Progress pc]"
proof -
  obtain pc where "percent (n_done st + 1) tot = Inr pc"
    using percent_ok [of tot "n_done st + 1"] assms by auto
  then have "bump_progress tot st = (emit (Progress pc) (st\<lparr>n_done := n_done st + 1\<rparr>), None)"
    by (simp add: bump_progress_def Let_def)
  then show ?thesis by simp
qed

lemma merge_item_body_merged:
  fixes s0 :: "'p merge_state"
  assumes "item_merged env it"
  shows "\<exists>s1 evs. merge_item_body env bm tot it s0 = (s1, None)
    \<and> w_pages (writer s1) = w_pages (writer s0) @ pages (open_pdf env (path it))
    \<and> n_done s1 = n_done s0 \<and> emitted s1 = emitted s0 @ evs"
proof -
  define s1 where
    "s1 = s0\<lparr>writer := (writer s0)\<lparr>w_pages := w_pages (writer s0)
                @ pages (open_pdf env (path it))\<rparr>\<rparr>"
  have s1: "w_pages (writer s1) = w_pages (writer s0) @ pages (open_pdf env (path it))"
    "n_done s1 = n_done s0" "emitted s1 = emitted s0"
    by (simp_all add: s1_def)
  have ok: "\<not> open_raises (open_pdf env (path it))"
    "(is_encrypted (open_pdf env (path it)) \<and> decrypt_raises (open_pdf env (path it))) = False"
    "\<not> pages_raise (open_pdf env (path it))"
    using assms by (simp_all add: item_merged_def)
  consider (plain) "\<not> bm" | (failed) "bm" "outline_raises env (path it)"
    | (marked) "bm" "\<not> outline_raises env (path it)"
    by blast
  then show ?thesis
  proof cases
    case plain
    then have "merge_item_body env bm tot it s0 = (s1, None)"
      by (simp add: merge_item_body_def Let_def s1_def ok)
    then show ?thesis using s1 by simp
  next
    case failed
    then have "merge_item_body env bm tot it s0
        = (emit (Message (MsgBookmarkFailed (basename env (path it)))) s1, None)"
      by (simp add: merge_item_body_def Let_def s1_def ok)
    then show ?thesis using s1 by simp
  next
    case marked
    then have "merge_item_body env bm tot it s0
        = (s1\<lparr>writer := (writer s1)\<lparr>w_outline := w_outline (writer s1)
               @ [(basename env (path it), length (w_pages (writer s0)))]\<rparr>\<rparr>, None)"
      by (simp add: merge_item_body_def Let_def s1_def ok)
    then show ?thesis using s1 by simp
  qed
qed

lemma merge_item_effect:
  fixes st :: "'p merge_state"
  assumes "0 < tot" "0 \<le> n_done st" "n_done st + 2 \<le> 2 * tot"
  shows "\<exists>st' evs. merge_item env bm tot it st = (st', None)
      \<and> w_pages (writer st')
        = w_pages (writer st) @ (if item_merged env it then pages (open_pdf env (path it)) else [])
      \<and> n_done st \<le> n_done st' \<and> n_done st' \<le> n_done st + 2
      \<and> emitted st' = emitted st @ Message (MsgLoading (path it)) # evs
      \<and> (\<not> open_raises (open_pdf env (path it)) \<and> is_encrypted (open_pdf env (path it))
           \<and> decrypt_raises (open_pdf env (path it))
          \<longrightarrow> Message (MsgSkipEncrypted (path it)) \<in> set evs)
      \<and> (open_raises (open_pdf env (path it))
           \<or> \<not> (is_encrypted (open_pdf env (path it)) \<and> decrypt_raises (open_pdf env (path it)))
             \<and> pages_raise (open_pdf env (path it))
          \<longrightarrow> Message (MsgSkipError (path it) OSError) \<in> set evs)"
proof -
  define f where "f = open_pdf env (path it)"
  define s0 where "s0 = emit (Message (MsgLoading (path it))) st"
  have s0: "n_done s0 = n_done st" "writer s0 = writer st"
    "emitted s0 = emitted st @ [Message (MsgLoading (path it))]"
    by (simp_all add: s0_def)
  have fin: "\<exists>s' pc. bump_progress tot s = (s', None) \<and> writer s' = writer s
      \<and> n_done s' = n_done s + 1 \<and> emitted s' = emitted s @ [Progress pc]"
    if "n_done st \<le> n_done s" "n_done s \<le> n_done st + 1" for s :: "'p merge_state"
    using that assms by (intro bump_progress_ok) simp_all
  have item: "merge_item env bm tot it st
      = (case merge_item_body env bm tot it s0 of
           (st1, None) \<Rightarrow> bump_progress tot st1
         | (st1, Some err) \<Rightarrow>
             bump_progress tot (emit (Message (MsgSkipError (path it) err)) st1))"
    by (simp add: merge_item_def s0_def Let_def)
  have skip: ?thesis
    if body: "merge_item_body env bm tot it s0 = (s0, Some OSError)"
      and nm: "\<not> item_merged env it"
      and ne: "\<not> (\<not> open_raises f \<and> is_encrypted f \<and> decrypt_raises f)"
  proof -
    obtain s' pc where "bump_progress tot (emit (Message (MsgSkipError (path it) OSError)) s0)
          = (s', None)"
      "writer s' = writer s0" "n_done s' = n_done s0 + 1"
      "emitted s' = emitted s0 @ [Message (MsgSkipError (path it) OSError)] @ [Progress pc]"
      using fin [of "emit (Message (MsgSkipError (path it) OSError)) s0"]
      by (auto simp: s0)
    then show ?thesis
      using nm ne unfolding item body f_def by (simp add: s0)
  qed
  consider (a) "open_raises f" | (b) "\<not> open_raises f" "is_encrypted f \<and> decrypt_raises f"
    | (c) "\<not> open_raises f" "\<not> (is_encrypted f \<and> decrypt_raises f)" "pages_raise f"
    | (d) "\<not> open_raises f" "\<not> (is_encrypted f \<and> decrypt_raises f)" "\<not> pages_raise f"
    by blast
  then show ?thesis
  proof cases
    case a
    then show ?thesis
      by (intro skip) (simp_all add: merge_item_body_def f_def Let_def item_merged_def)
  next
    case c
    then show ?thesis
      by (intro skip) (auto simp: merge_item_body_def f_def Let_def item_merged_def)
  next
    case b
    obtain s1 pc1 where s1: "bump_progress tot (emit (Message (MsgSkipEncrypted (path it))) s0)
          = (s1, None)"
      "writer s1 = writer s0" "n_done s1 = n_done s0 + 1"
      "emitted s1 = emitted s0 @ [Message (MsgSkipEncrypted (path it))] @ [Progress pc1]"
      using fin [of "emit (Message (MsgSkipEncrypted (path it))) s0"] by (auto simp: s0)
    have body: "merge_item_body env bm tot it s0 = (s1, None)"
      using b s1(1) by (simp add: merge_item_body_def f_def Let_def)
    obtain s2 pc2 where s2: "bump_progress tot s1 = (s2, None)"
      "writer s2 = writer s1" "n_done s2 = n_done s1 + 1"
      "emitted s2 = emitted s1 @ [Progress pc2]"
      using fin [of s1] by (auto simp: s1 s0)
    have nm: "\<not> item_merged env it" using b by (simp add: item_merged_def f_def)
    have b': "\<not> open_raises (open_pdf env (path it))" "is_encrypted (open_pdf env (path it))"
      "decrypt_raises (open_pdf env (path it))"
      using b by (simp_all add: f_def)
    show ?thesis
      using nm unfolding item body by (simp add: s2 s1 s0 b')
  next
    case d
    then have m: "item_merged env it" by (simp add: item_merged_def f_def)
    obtain s1 evs where body: "merge_item_body env bm tot it s0 = (s1, None)"
      and s1: "w_pages (writer s1) = w_pages (writer s0) @ pages f" "n_done s1 = n_done s0"
        "emitted s1 = emitted s0 @ evs"
      using merge_item_body_merged [OF m, of bm tot s0] unfolding f_def by blast
    obtain s2 pc2 where s2: "bump_progress tot s1 = (s2, None)"
      "writer s2 = writer s1" "n_done s2 = n_done s1 + 1"
      "emitted s2 = emitted s1 @ [Progress pc2]"
      using fin [of s1] by (auto simp: s1 s0)
    have ne: "(is_encrypted (open_pdf env (path it))
        \<and> decrypt_raises (open_pdf env (path it))) = False"
      using d(2) by (simp add: f_def)
    have d': "\<not> open_raises (open_pdf env (path it))" "\<not> pages_raise (open_pdf env (path it))"
      using d by (simp_all add: f_def)
    show ?thesis
      using m unfolding item body by (simp add: s2 s1 s0 f_def ne d')
  qed
qed

lemma merge_loop:
  fixes st :: "'p merge_state"
  assumes "0 < tot" "0 \<le> n_done st" "n_done st + 2 * int (length its) \<le> 2 * tot"
  shows "\<exists>st'. for_each (merge_item env bm tot) its st = (st', None)
     \<and> w_pages (writer st')
       = w_pages (writer st)
         @ concat (map (\<lambda>it. pages (open_pdf env (path it))) (filter (item_merged env) its))
     \<and> set (emitted st) \<subseteq> set (emitted st')
     \<and> (\<forall>it\<in>set its. Message (MsgLoading (path it)) \<in> set (emitted st'))
     \<and> (\<forall>it\<in>set its. \<not> open_raises (open_pdf env (path it))
           \<and> is_encrypted (open_pdf env (path it)) \<and> decrypt_raises (open_pdf env (path it))
          \<longrightarrow> Message (MsgSkipEncrypted (path it)) \<in> set (emitted st'))
     \<and> (\<forall>it\<in>set its. open_raises (open_pdf env (path it))
           \<or> \<not> (is_encrypted (open_pdf env (path it)) \<and> decrypt_raises (open_pdf env (path it)))
             \<and> pages_raise (open_pdf env (path it))
          \<longrightarrow> Message (MsgSkipError (path it) OSError) \<in> set (emitted st'))"
  using assms(2,3)
proof (induction its arbitrary: st)
  case Nil
  then show ?case by simp
next
  case (Cons it its)
  have "n_done st + 2 \<le> 2 * tot" using Cons.prems(2) by simp
  from merge_item_effect [OF assms(1) Cons.prems(1) this, of env bm it]
  obtain s1 evs where s1: "merge_item env bm tot it st = (s1, None)"
    "w_pages (writer s1)
        = w_pages (writer st) @ (if item_merged env it then pages (open_pdf env (path it)) else [])"
    "n_done st \<le> n_done s1" "n_done s1 \<le> n_done st + 2"
    "emitted s1 = emitted st @ Message (MsgLoading (path it)) # evs"
    "\<not> open_raises (open_pdf env (path it)) \<and> is_encrypted (open_pdf env (path it))
           \<and> decrypt_raises (open_pdf env (path it))
          \<longrightarrow> Message (MsgSkipEncrypted (path it)) \<in> set evs"
    "open_raises (open_pdf env (path it))
           \<or> \<not> (is_encrypted (open_pdf env (path it)) \<and> decrypt_raises (open_pdf env (path it)))
             \<and> pages_raise (open_pdf env (path it))
          \<longrightarrow> Message (MsgSkipError (path it) OSError) \<in> set evs"
    by blast
  have "0 \<le> n_done s1" using s1(3) Cons.prems(1) by simp
  moreover have "n_done s1 + 2 * int (length its) \<le> 2 * tot"
    using s1(4) Cons.prems(2) by simp
  ultimately obtain st' where st': "for_each (merge_item env bm tot) its s1 = (st', None)"
    "w_pages (writer st')
       = w_pages (writer s1)
         @ concat (map (\<lambda>it. pages (open_pdf env (path it))) (filter (item_merged env) its))"
    "set (emitted s1) \<subseteq> set (emitted st')"
    "\<forall>it\<in>set its. Message (MsgLoading (path it)) \<in> set (emitted st')"
    "\<forall>it\<in>set its. \<not> open_raises (open_pdf env (path it))
           \<and> is_encrypted (open_pdf env (path it)) \<and> decrypt_raises (open_pdf env (path it))
          \<longrightarrow> Message (MsgSkipEncrypted (path it)) \<in> set (emitted st')"
    "\<forall>it\<in>set its. open_raises (open_pdf env (path it))
           \<or> \<not> (is_encrypted (open_pdf env (path it)) \<and> decrypt_raises (open_pdf env (path it)))
             \<and> pages_raise (open_pdf env (path it))
          \<longrightarrow> Message (MsgSkipError (path it) OSError) \<in> set (emitted st')"
    using Cons.IH [of s1] by blast
  have 1: "for_each (merge_item env bm tot) (it # its) st = (st', None)"
    using s1(1) st'(1) by simp
  have 2: "w_pages (writer st')
       = w_pages (writer st)
         @ concat (map (\<lambda>it. pages (open_pdf env (path it)))
             (filter (item_merged env) (it # its)))"
    using s1(2) st'(2) by simp
  have 3: "set (emitted st) \<subseteq> set (emitted st')"
    using s1(5) st'(3) by auto
  have 4: "Message (MsgLoading (path it)) \<in> set (emitted st')"
    using s1(5) st'(3) by auto
  have 5: "\<not> open_raises (open_pdf env (path it)) \<and> is_encrypted (open_pdf env (path it))
           \<and> decrypt_raises (open_pdf env (path it))
          \<longrightarrow> Message (MsgSkipEncrypted (path it)) \<in> set (emitted st')"
    using s1(5,6) st'(3) by auto
  have 6: "open_raises (open_pdf env (path it))
           \<or> \<not> (is_encrypted (open_pdf env (path it)) \<and> decrypt_raises (open_pdf env (path it)))
             \<and> pages_raise (open_pdf env (path it))
          \<longrightarrow> Message (MsgSkipError (path it) OSError) \<in> set (emitted st')"
    using s1(5,7) st'(3) by auto
  show ?case
  proof (intro exI [of _ st'] conjI ballI)
    show "for_each (merge_item env bm tot) (it # its) st = (st', None)" by (rule 1)
    show "w_pages (writer st')
       = w_pages (writer st)
         @ concat (map (\<lambda>it. pages (open_pdf env (path it)))
             (filter (item_merged env) (it # its)))" by (rule 2)
    show "set (emitted st) \<subseteq> set (emitted st')" by (rule 3)
    show "Message (MsgLoading (path x)) \<in> set (emitted st')" if "x \<in> set (it # its)" for x
      using that 4 st'(4) by auto
    show "\<not> open_raises (open_pdf env (path x))
           \<and> is_encrypted (open_pdf env (path x)) \<and> decrypt_raises (open_pdf env (path x))
          \<longrightarrow> Message (MsgSkipEncrypted (path x)) \<in> set (emitted st')"
      if "x \<in> set (it # its)" for x
      using that 5 st'(5) by auto
    show "open_raises (open_pdf env (path x))
           \<or> \<not> (is_encrypted (open_pdf env (path x)) \<and> decrypt_raises (open_pdf env (path x)))
             \<and> pages_raise (open_pdf env (path x))
          \<longrightarrow> Message (MsgSkipError (path x) OSError) \<in> set (emitted st')"
      if "x \<in> set (it # its)" for x
      using that 6 st'(6) by auto
  qed
qed

lemma length_concat_singletons:
  "(\<forall>x\<in>set xs. length (f x) = 1) \<Longrightarrow> length (concat (map f xs)) = length xs"
  by (induction xs) simp_all

text \<open>
  Claim C5. A merge run over a plan that is not empty, whose output can be written,
  ends with \<^verbatim>\<open>finished_ok\<close>, and its output holds exactly the pages of the merged
  items, in plan order. For every item whose document is encrypted and whose decrypt
  attempt with the empty password fails, the run emits a skip message of that item, the
  item is not merged (none of its pages is in the output), and the run goes on: every
  item of the plan gets its loading message. The skip message is the one for encrypted
  documents when \<^verbatim>\<open>decrypt("")\<close> raises, and the one for errors when
  \<^verbatim>\<open>decrypt("")\<close> returns and the pages still cannot be read; every item that is not
  merged has one of the two. So when every merged document has one page, the output has
  as many pages as there are merged items: 2 for a plan of 3 with one unreadable item.
\<close>

theorem merge_skips_locked_items:
  fixes env :: "'p merge_env"
  assumes "items w \<noteq> []" and "\<not> write_raises env"
  shows "\<exists>out evs.
      MergeWorker_run env w
        = \<lparr>merge_events = evs @ [FinishedOk (out_path w)], merge_output = Some out\<rparr>
    \<and> w_pages out
        = concat (map (\<lambda>it. pages (open_pdf env (path it)))
            (filter (item_merged env) (items w)))
    \<and> (\<forall>it\<in>set (items w). Message (MsgLoading (path it)) \<in> set evs)
    \<and> (\<forall>it\<in>set (items w).
          \<not> open_raises (open_pdf env (path it)) \<and> is_encrypted (open_pdf env (path it))
          \<and> decrypt_raises (open_pdf env (path it))
          \<longrightarrow> Message (MsgSkipEncrypted (path it)) \<in> set evs \<and> \<not> item_merged env it)
    \<and> ((\<forall>it\<in>set (items w). item_merged env it
            \<longrightarrow> length (pages (open_pdf env (path it))) = 1)
        \<longrightarrow> length (w_pages out) = length (filter (item_merged env) (items w)))
    \<and> (\<forall>it\<in>set (items w).
          \<not> open_raises (open_pdf env (path it)) \<and> is_encrypted (open_pdf env (path it))
          \<and> \<not> decrypt_raises (open_pdf env (path it)) \<and> pages_raise (open_pdf env (path it))
          \<longrightarrow> Message (MsgSkipError (path it) OSError) \<in> set evs \<and> \<not> item_merged env it)
    \<and> (\<forall>it\<in>set (items w). \<not> item_merged env it
          \<longrightarrow> Message (MsgSkipEncrypted (path it)) \<in> set evs
              \<or> Message (MsgSkipError (path it) OSError) \<in> set evs)"
proof -
  define st0 :: "'p merge_state" where
    "st0 = \<lparr>writer = \<lparr>w_pages = [], w_outline = []\<rparr>, n_done = 0, emitted = []\<rparr>"
  define tot where "tot = int (length (items w))"
  have tot: "0 < tot" using assms(1) by (simp add: tot_def)
  have "n_done st0 + 2 * int (length (items w)) \<le> 2 * tot" by (simp add: st0_def tot_def)
  moreover have "0 \<le> n_done st0" by (simp add: st0_def)
  ultimately obtain st where st:
    "for_each (merge_item env (add_bookmarks w) tot) (items w) st0 = (st, None)"
    "w_pages (writer st)
       = w_pages (writer st0)
         @ concat (map (\<lambda>it. pages (open_pdf env (path it)))
             (filter (item_merged env) (items w)))"
    "\<forall>it\<in>set (items w). Message (MsgLoading (path it)) \<in> set (emitted st)"
    "\<forall>it\<in>set (items w). \<not> open_raises (open_pdf env (path it))
           \<and> is_encrypted (open_pdf env (path it)) \<and> decrypt_raises (open_pdf env (path it))
          \<longrightarrow> Message (MsgSkipEncrypted (path it)) \<in> set (emitted st)"
    "\<forall>it\<in>set (items w). open_raises (open_pdf env (path it))
           \<or> \<not> (is_encrypted (open_pdf env (path it)) \<and> decrypt_raises (open_pdf env (path it)))
             \<and> pages_raise (open_pdf env (path it))
          \<longrightarrow> Message (MsgSkipError (path it) OSError) \<in> set (emitted st)"
    using merge_loop [OF tot, of st0 "items w" env "add_bookmarks w"] by blast
  have run: "MergeWorker_run env w
      = \<lparr>merge_events = emitted st @ [FinishedOk (out_path w)], merge_output = Some (writer st)\<rparr>"
    using assms st(1)
    by (simp add: MergeWorker_run_def Let_def st0_def [symmetric] tot_def [symmetric])
  have pages: "w_pages (writer st)
       = concat (map (\<lambda>it. pages (open_pdf env (path it)))
           (filter (item_merged env) (items w)))"
    using st(2) by (simp add: st0_def)
  have len: "length (w_pages (writer st)) = length (filter (item_merged env) (items w))"
    if "\<forall>it\<in>set (items w). item_merged env it
            \<longrightarrow> length (pages (open_pdf env (path it))) = 1"
    unfolding pages by (rule length_concat_singletons) (use that in simp)
  have skip: "\<not> item_merged env it"
    if "is_encrypted (open_pdf env (path it)) \<and> decrypt_raises (open_pdf env (path it))" for it
    using that by (simp add: item_merged_def)
  have sealed: "Message (MsgSkipError (path it) OSError) \<in> set (emitted st)
      \<and> \<not> item_merged env it"
    if "it \<in> set (items w)"
      "\<not> open_raises (open_pdf env (path it)) \<and> is_encrypted (open_pdf env (path it))
          \<and> \<not> decrypt_raises (open_pdf env (path it)) \<and> pages_raise (open_pdf env (path it))"
    for it
    using that st(5) by (auto simp: item_merged_def)
  have any: "Message (MsgSkipEncrypted (path it)) \<in> set (emitted st)
      \<or> Message (MsgSkipError (path it) OSError) \<in> set (emitted st)"
    if "it \<in> set (items w)" "\<not> item_merged env it" for it
    using that st(4,5) unfolding item_merged_def by blast
  show ?thesis
  proof (intro exI [of _ "writer st"] exI [of _ "emitted st"] conjI ballI impI)
    show "MergeWorker_run env w
        = \<lparr>merge_events = emitted st @ [FinishedOk (out_path w)],
           merge_output = Some (writer st)\<rparr>"
      by (rule run)
    show "w_pages (writer st)
        = concat (map (\<lambda>it. pages (open_pdf env (path it)))
            (filter (item_merged env) (items w)))"
      by (rule pages)
    show "Message (MsgLoading (path it)) \<in> set (emitted st)" if "it \<in> set (items w)" for it
      using that st(3) by blast
    show "Message (MsgSkipEncrypted (path it)) \<in> set (emitted st)"
      if "it \<in> set (items w)"
        "\<not> open_raises (open_pdf env (path it)) \<and> is_encrypted (open_pdf env (path it))
          \<and> decrypt_raises (open_pdf env (path it))" for it
      using that st(4) by blast
    show "\<not> item_merged env it"
      if "it \<in> set (items w)"
        "\<not> open_raises (open_pdf env (path it)) \<and> is_encrypted (open_pdf env (path it))
          \<and> decrypt_raises (open_pdf env (path it))" for it
      using that skip by blast
    show "length (w_pages (writer st)) = length (filter (item_merged env) (items w))"
      if "\<forall>it\<in>set (items w). item_merged env it
            \<longrightarrow> length (pages (open_pdf env (path it))) = 1"
      using that by (rule len)
    show "Message (MsgSkipError (path it) OSError) \<in> set (emitted st)"
      if "it \<in> set (items w)"
        "\<not> open_raises (open_pdf env (path it)) \<and> is_encrypted (open_pdf env (path it))
          \<and> \<not> decrypt_raises (open_pdf env (path it)) \<and> pages_raise (open_pdf env (path it))"
      for it
      using sealed [OF that] by blast
    show "\<not> item_merged env it"
      if "it \<in> set (items w)"
        "\<not> open_raises (open_pdf env (path it)) \<and> is_encrypted (open_pdf env (path it))
          \<and> \<not> decrypt_raises (open_pdf env (path it)) \<and> pages_raise (open_pdf env (path it))"
      for it
      using sealed [OF that] by blast
    show "Message (MsgSkipEncrypted (path it)) \<in> set (emitted st)
        \<or> Message (MsgSkipError (path it) OSError) \<in> set (emitted st)"
      if "it \<in> set (items w)" "\<not> item_merged env it" for it
      using any [OF that] .
  qed
qed

subsection \<open>Evaluation on the sample directory\<close>

lemma percent_values:
  "percent 1 1 = Inr 100" "percent 2 1 = Inr 200"
  "percent 1 3 = Inr 33" "percent 2 3 = Inr 66" "percent 3 3 = Inr 100" "percent 4 3 = Inr 133"
  by code_simp+

lemmas merge_eval_defs =
  MergeWorker_run_def merge_item_def merge_item_body_def bump_progress_def emit_def
  sample_merge_env_def merge_plan_def locked_pdf_def sealed_pdf_def sample_pdf_def Let_def

text \<open>
  Two runs of it on the sample directory, each over three documents of which the second
  is encrypted and not opened by the empty password: \<^verbatim>\<open>locked.pdf\<close>, whose
  \<^verbatim>\<open>decrypt("")\<close> raises, and \<^verbatim>\<open>sealed.pdf\<close>, whose pages stay unreadable. The
  encrypted documents have the pages 901 and 902; the output has the two pages of the
  other documents and none of these.
\<close>

theorem merge_skips_locked_items_witness:
  "map_option (\<lambda>out. length (w_pages out))
     (merge_output (MergeWorker_run sample_merge_env
        (merge_plan [''a.pdf'', ''locked.pdf'', ''cc.pdf''])))
     = Some 2
   \<and> Message (MsgSkipEncrypted ''locked.pdf'')
       \<in> set (merge_events (MergeWorker_run sample_merge_env
                (merge_plan [''a.pdf'', ''locked.pdf'', ''cc.pdf''])))
   \<and> Message (MsgLoading ''cc.pdf'')
       \<in> set (merge_events (MergeWorker_run sample_merge_env
                (merge_plan [''a.pdf'', ''locked.pdf'', ''cc.pdf''])))
   \<and> map_option w_pages
       (merge_output (MergeWorker_run sample_merge_env
          (merge_plan [''a.pdf'', ''locked.pdf'', ''cc.pdf''])))
     = Some [5, 6]
   \<and> map_option w_pages
       (merge_output (MergeWorker_run sample_merge_env
          (merge_plan [''a.pdf'', ''sealed.pdf'', ''cc.pdf''])))
     = Some [5, 6]
   \<and> Message (MsgSkipError ''sealed.pdf'' OSError)
       \<in> set (merge_events (MergeWorker_run sample_merge_env
                (merge_plan [''a.pdf'', ''sealed.pdf'', ''cc.pdf''])))"
proof -
  define w where "w = merge_plan [''a.pdf'', ''locked.pdf'', ''cc.pdf'']"
  define v where "v = merge_plan [''a.pdf'', ''sealed.pdf'', ''cc.pdf'']"
  have its: "items w = [\<lparr>path = ''a.pdf'', size_bytes = 1024\<rparr>,
      \<lparr>path = ''locked.pdf'', size_bytes = 1024\<rparr>, \<lparr>path = ''cc.pdf'', size_bytes = 1024\<rparr>]"
    by (simp add: w_def merge_plan_def)
  have itv: "items v = [\<lparr>path = ''a.pdf'', size_bytes = 1024\<rparr>,
      \<lparr>path = ''sealed.pdf'', size_bytes = 1024\<rparr>, \<lparr>path = ''cc.pdf'', size_bytes = 1024\<rparr>]"
    by (simp add: v_def merge_plan_def)
  have ne: "items w \<noteq> []" "items v \<noteq> []" by (simp_all add: its itv)
  have wr: "\<not> write_raises sample_merge_env" by (simp add: sample_merge_env_def)
  note env = sample_merge_env_def sample_pdf_def locked_pdf_def sealed_pdf_def item_merged_def
  from merge_skips_locked_items [OF ne(1) wr] obtain out evs where run:
    "MergeWorker_run sample_merge_env w
        = \<lparr>merge_events = evs @ [FinishedOk (out_path w)], merge_output = Some out\<rparr>"
    and pages: "w_pages out
        = concat (map (\<lambda>it. pages (open_pdf sample_merge_env (path it)))
            (filter (item_merged sample_merge_env) (items w)))"
    and load: "\<forall>it\<in>set (items w). Message (MsgLoading (path it)) \<in> set evs"
    and skip: "\<forall>it\<in>set (items w).
          \<not> open_raises (open_pdf sample_merge_env (path it))
          \<and> is_encrypted (open_pdf sample_merge_env (path it))
          \<and> decrypt_raises (open_pdf sample_merge_env (path it))
          \<longrightarrow> Message (MsgSkipEncrypted (path it)) \<in> set evs
              \<and> \<not> item_merged sample_merge_env it"
    and len: "(\<forall>it\<in>set (items w). item_merged sample_merge_env it
            \<longrightarrow> length (pages (open_pdf sample_merge_env (path it))) = 1)
        \<longrightarrow> length (w_pages out) = length (filter (item_merged sample_merge_env) (items w))"
    by blast
  from merge_skips_locked_items [OF ne(2) wr] obtain out' evs' where run':
    "MergeWorker_run sample_merge_env v
        = \<lparr>merge_events = evs' @ [FinishedOk (out_path v)], merge_output = Some out'\<rparr>"
    and pages': "w_pages out'
        = concat (map (\<lambda>it. pages (open_pdf sample_merge_env (path it)))
            (filter (item_merged sample_merge_env) (items v)))"
    and sealed: "\<forall>it\<in>set (items v).
          \<not> open_raises (open_pdf sample_merge_env (path it))
          \<and> is_encrypted (open_pdf sample_merge_env (path it))
          \<and> \<not> decrypt_raises (open_pdf sample_merge_env (path it))
          \<and> pages_raise (open_pdf sample_merge_env (path it))
          \<longrightarrow> Message (MsgSkipError (path it) OSError) \<in> set evs'
              \<and> \<not> item_merged sample_merge_env it"
    by blast
  have "length (w_pages out) = 2"
    using len by (simp add: its env)
  moreover have "Message (MsgSkipEncrypted ''locked.pdf'') \<in> set evs"
    using skip by (simp add: its env)
  moreover have "Message (MsgLoading ''cc.pdf'') \<in> set evs"
    using load by (simp add: its)
  moreover have "w_pages out = [5, 6]"
    using pages by (simp add: its env)
  moreover have "w_pages out' = [5, 6]"
    using pages' by (simp add: itv env)
  moreover have "Message (MsgSkipError ''sealed.pdf'' OSError) \<in> set evs'"
    using sealed by (simp add: itv env)
  ultimately show ?thesis
    unfolding w_def [symmetric] v_def [symmetric] run run' by simp
qed

text \<open>
  Claim C1 says that a merge run reports the progress \<open>processed / total\<close> once after
  each item, so that the values never decrease and reach 100 exactly once, at the end of
  the run. The run does so on a plan without a locked document: three readable documents
  give 33, 66, 100. An item whose \<^verbatim>\<open>decrypt("")\<close> raises is counted twice, once in the
  handler before its \<^verbatim>\<open>continue\<close> and once more in the \<^verbatim>\<open>finally\<close> clause, which
  Python runs on the way out: a plan of that single item reports 100 and then 200, and
  with the locked document in the middle of three the run reports 33, 66, 100, 133, so
  100 is reached before the end and the last value is above 100.
\<close>

theorem merge_progress_counts_locked_item_twice:
  "progress_values (merge_events (MergeWorker_run sample_merge_env
       (merge_plan [''locked.pdf''])))
     = [100, 200]
   \<and> progress_values (merge_events (MergeWorker_run sample_merge_env
       (merge_plan [''a.pdf'', ''locked.pdf'', ''cc.pdf''])))
     = [33, 66, 100, 133]
   \<and> progress_values (merge_events (MergeWorker_run sample_merge_env
       (merge_plan [''a.pdf'', ''bb.pdf'', ''cc.pdf''])))
     = [33, 66, 100]"
  by (simp add: merge_eval_defs percent_values)

end
